theory Spec2Isabelle
  imports Main "HOL-Library.Word"
begin

section \<open>JavaScript values, buffers and errors\<close>

text \<open>
  The codec moves JavaScript values through \<^verbatim>\<open>ArrayBuffer\<close>s. A buffer is its list of
  bytes; a string is its list of UTF-16 code units; a typed array is its element kind
  together with its backing bytes (so that copying a typed array into a view of the same
  kind copies those bytes); an \<^verbatim>\<open>ImageData\<close> is width, height and its \<^verbatim>\<open>data\<close> bytes.
  \<open>JObj a\<close> is an opaque object (a GL handle) with identity \<open>a\<close>. A number is a
  binary64 value: \<open>JNum n\<close> is the integer \<open>n\<close>, and \<open>JDouble w\<close> is any other number,
  given by its binary64 encoding \<open>w\<close> (a fraction, \<open>-0\<close>, an infinity, or \<^verbatim>\<open>NaN\<close>).
\<close>

type_synonym byte = "8 word"
type_synonym jsstring = "16 word list"

datatype arr_kind =
  Int8Array | Uint8Array | Uint8ClampedArray | Int16Array | Uint16Array
  | Int32Array | Uint32Array | Float32Array | Float64Array

fun BYTES_PER_ELEMENT :: "arr_kind \<Rightarrow> nat" where
  "BYTES_PER_ELEMENT Int8Array = 1"
| "BYTES_PER_ELEMENT Uint8Array = 1"
| "BYTES_PER_ELEMENT Uint8ClampedArray = 1"
| "BYTES_PER_ELEMENT Int16Array = 2"
| "BYTES_PER_ELEMENT Uint16Array = 2"
| "BYTES_PER_ELEMENT Int32Array = 4"
| "BYTES_PER_ELEMENT Uint32Array = 4"
| "BYTES_PER_ELEMENT Float32Array = 4"
| "BYTES_PER_ELEMENT Float64Array = 8"

datatype js_value =
  JUndefined
  | JNull
  | JBool bool
  | JNum int
  | JDouble "64 word"
  | JStr jsstring
  | JObj nat
  | JTyped arr_kind "byte list"
  | JImage nat nat "byte list"
  | JList "js_value list"


subsection \<open>Numbers\<close>

text \<open>
  The value of a number: \<open>NFin s m e\<close> is \<open>m * 2 ^ e\<close>, negative when \<open>s\<close> holds
  (\<open>m = 0\<close> with \<open>s\<close> is \<open>-0\<close>). \<open>ieee_encode p w\<close> rounds it to the binary format
  with \<open>p\<close> fraction bits and \<open>w\<close> exponent bits (to nearest, ties to even, subnormals
  and overflow to infinity included) and gives the bits of the result as a natural
  number; \<^verbatim>\<open>NaN\<close> is written as the quiet \<^verbatim>\<open>NaN\<close> with an empty payload. \<open>ieee_decode\<close>
  reads such bits.
\<close>

datatype number = NFin bool nat int | NInf bool | NNaN

fun bitlen :: "nat \<Rightarrow> nat" where
  "bitlen n = (if n = 0 then 0 else Suc (bitlen (n div 2)))"

declare bitlen.simps [simp del]

definition round_shift :: "nat \<Rightarrow> int \<Rightarrow> nat" where
  "round_shift m k =
     (if 0 \<le> k then m * 2 ^ nat k
      else (let d = 2 ^ nat (- k); q = m div d; r = m mod d
            in if d < 2 * r \<or> (2 * r = d \<and> odd q) then q + 1 else q))"

definition ieee_encode :: "nat \<Rightarrow> nat \<Rightarrow> number \<Rightarrow> nat" where
  "ieee_encode p w x =
     (let emin = 2 - 2 ^ (w - 1) :: int;
          top = (2 ^ w - 1) * 2 ^ p :: nat
      in case x of
           NNaN \<Rightarrow> top + 2 ^ (p - 1)
         | NInf s \<Rightarrow> (if s then 2 ^ (p + w) else 0) + top
         | NFin s m e \<Rightarrow>
             (if s then 2 ^ (p + w) else 0)
             + (if m = 0 then 0
                else (let E = max (int (bitlen m) - 1 + e) emin;
                          S = round_shift m (e - (E - int p))
                      in min (nat (E - emin) * 2 ^ p + S) top)))"

definition ieee_decode :: "nat \<Rightarrow> nat \<Rightarrow> nat \<Rightarrow> number" where
  "ieee_decode p w bits =
     (let s = ((bits div 2 ^ (p + w)) mod 2 = 1);
          x = (bits div 2 ^ p) mod 2 ^ w;
          f = bits mod 2 ^ p;
          emin = 2 - 2 ^ (w - 1) :: int
      in if x = 2 ^ w - 1 then (if f = 0 then NInf s else NNaN)
         else if x = 0 then NFin s f (emin - int p)
         else NFin s (2 ^ p + f) (int x - 1 + emin - int p))"

text \<open>The integral part of a number (towards zero); 0 for \<^verbatim>\<open>NaN\<close> and the infinities.\<close>

fun number_trunc :: "number \<Rightarrow> int" where
  "number_trunc (NFin s m e) =
     (let a = (if 0 \<le> e then int m * 2 ^ nat e else int (m div 2 ^ nat (- e)))
      in if s then - a else a)"
| "number_trunc (NInf s) = 0"
| "number_trunc NNaN = 0"

text \<open>The JavaScript value of a number: \<open>JNum\<close> for an integer other than \<open>-0\<close>.\<close>

definition number_value :: "number \<Rightarrow> js_value" where
  "number_value x =
     (case x of
        NFin s m e \<Rightarrow>
          if (m = 0 \<and> \<not> s) \<or> (m \<noteq> 0 \<and> (0 \<le> e \<or> m mod 2 ^ nat (- e) = 0))
          then JNum (number_trunc x)
          else JDouble (word_of_nat (ieee_encode 52 11 x))
      | _ \<Rightarrow> JDouble (word_of_nat (ieee_encode 52 11 x)))"

text \<open>
  What the source throws: \<open>Error msg\<close> is the explicit \<^verbatim>\<open>throw new Error(msg)\<close> of
  \<^verbatim>\<open>addCommand\<close>; \<open>TypeError\<close>, \<open>RangeError\<close> and \<open>DOMException\<close> are raised by the
  runtime (property access on \<^verbatim>\<open>undefined\<close>, an access outside an \<^verbatim>\<open>ArrayBuffer\<close> or a
  misaligned view, the \<^verbatim>\<open>ImageData\<close> constructor). \<open>OutsideModel\<close> is not a JavaScript
  error: it marks an input whose treatment depends on coercions this model does not
  cover (a string converted to a number, a number that is not a small integer converted
  to a string, a typed array used as a handle, a descriptor whose return type is not an
  id written with an integer accessor).
\<close>

datatype error = Error string | TypeError | RangeError | DOMException | OutsideModel

datatype 's outcome = Done 's | Throws error 's

fun nth_or_undefined :: "js_value list \<Rightarrow> nat \<Rightarrow> js_value" where
  "nth_or_undefined vs i = (if i < length vs then vs ! i else JUndefined)"

fun arg0 :: "js_value list \<Rightarrow> js_value" where
  "arg0 [] = JUndefined"
| "arg0 (v # vs) = v"

text \<open>\<^verbatim>\<open>value ? 1 : 0\<close> and \<^verbatim>\<open>!!v\<close>: JavaScript truthiness.\<close>

fun truthy :: "js_value \<Rightarrow> bool" where
  "truthy JUndefined = False"
| "truthy JNull = False"
| "truthy (JBool b) = b"
| "truthy (JNum n) = (n \<noteq> 0)"
| "truthy (JDouble w) =
     (case ieee_decode 52 11 (unat w) of NFin s m e \<Rightarrow> m \<noteq> 0 | NInf s \<Rightarrow> True | NNaN \<Rightarrow> False)"
| "truthy (JStr s) = (s \<noteq> [])"
| "truthy (JObj a) = True"
| "truthy (JTyped k bs) = True"
| "truthy (JImage w h d) = True"
| "truthy (JList vs) = True"

text \<open>
  The integer an integer \<^verbatim>\<open>DataView\<close> setter sees after \<^verbatim>\<open>ToNumber\<close>: \<^verbatim>\<open>undefined\<close> and
  plain objects give \<^verbatim>\<open>NaN\<close>, which the setters store as 0; a fraction is truncated.
\<close>

fun to_integral :: "js_value \<Rightarrow> error + int" where
  "to_integral JUndefined = Inr 0"
| "to_integral JNull = Inr 0"
| "to_integral (JBool b) = Inr (if b then 1 else 0)"
| "to_integral (JNum n) = Inr n"
| "to_integral (JDouble w) = Inr (number_trunc (ieee_decode 52 11 (unat w)))"
| "to_integral (JObj a) = Inr 0"
| "to_integral (JImage w h d) = Inr 0"
| "to_integral (JStr s) = Inl OutsideModel"
| "to_integral (JTyped k bs) = Inl OutsideModel"
| "to_integral (JList vs) = Inl OutsideModel"

text \<open>The number a float setter sees after \<^verbatim>\<open>ToNumber\<close>.\<close>

fun to_number :: "js_value \<Rightarrow> error + number" where
  "to_number JUndefined = Inr NNaN"
| "to_number JNull = Inr (NFin False 0 0)"
| "to_number (JBool b) = Inr (NFin False (if b then 1 else 0) 0)"
| "to_number (JNum n) = Inr (NFin (n < 0) (nat \<bar>n\<bar>) 0)"
| "to_number (JDouble w) = Inr (ieee_decode 52 11 (unat w))"
| "to_number (JObj a) = Inr NNaN"
| "to_number (JImage w h d) = Inr NNaN"
| "to_number (JStr s) = Inl OutsideModel"
| "to_number (JTyped k bs) = Inl OutsideModel"
| "to_number (JList vs) = Inl OutsideModel"

subsection \<open>DataView accessors\<close>

datatype scalar_kind = Int8 | Uint8 | Int16 | Uint16 | Int32 | Uint32

fun kind_bytes :: "scalar_kind \<Rightarrow> nat" where
  "kind_bytes Int8 = 1"
| "kind_bytes Uint8 = 1"
| "kind_bytes Int16 = 2"
| "kind_bytes Uint16 = 2"
| "kind_bytes Int32 = 4"
| "kind_bytes Uint32 = 4"

fun kind_signed :: "scalar_kind \<Rightarrow> bool" where
  "kind_signed Int8 = True"
| "kind_signed Int16 = True"
| "kind_signed Int32 = True"
| "kind_signed k = False"

text \<open>Big-endian bytes of \<open>n\<close> modulo \<open>2 ^ (8 * w)\<close> (a \<^verbatim>\<open>DataView\<close> defaults to big-endian).\<close>

fun be_bytes :: "nat \<Rightarrow> int \<Rightarrow> byte list" where
  "be_bytes 0 n = []"
| "be_bytes (Suc w) n = word_of_int (n div 256 ^ w) # be_bytes w n"

fun be_nat :: "byte list \<Rightarrow> nat" where
  "be_nat bs = foldl (\<lambda>acc b. acc * 256 + unat b) 0 bs"

definition be_value :: "scalar_kind \<Rightarrow> byte list \<Rightarrow> int" where
  "be_value k bs =
     (let n = int (be_nat bs) in
      if kind_signed k \<and> 2 ^ (8 * kind_bytes k - 1) \<le> n then n - 2 ^ (8 * kind_bytes k) else n)"

text \<open>Overwriting \<open>length bs\<close> bytes of a buffer from offset \<open>p\<close> (the caller checks the range).\<close>

definition write_at :: "byte list \<Rightarrow> nat \<Rightarrow> byte list \<Rightarrow> byte list" where
  "write_at buf p bs = take p buf @ bs @ drop (p + length bs) buf"

definition bytes_at :: "byte list \<Rightarrow> nat \<Rightarrow> nat \<Rightarrow> byte list" where
  "bytes_at buf p n = take n (drop p buf)"

text \<open>\<^verbatim>\<open>view['set' + kind](pointer, value)\<close>: a \<^verbatim>\<open>RangeError\<close> outside the buffer.\<close>

definition dv_set :: "scalar_kind \<Rightarrow> nat \<Rightarrow> js_value \<Rightarrow> byte list \<Rightarrow> error + byte list" where
  "dv_set k p v buf =
     (case to_integral v of
        Inl e \<Rightarrow> Inl e
      | Inr n \<Rightarrow>
          if p + kind_bytes k \<le> length buf then Inr (write_at buf p (be_bytes (kind_bytes k) n))
          else Inl RangeError)"

text \<open>\<^verbatim>\<open>values['get' + kind](vPt)\<close>.\<close>

definition dv_get :: "scalar_kind \<Rightarrow> nat \<Rightarrow> byte list \<Rightarrow> error + int" where
  "dv_get k p buf =
     (if p + kind_bytes k \<le> length buf then Inr (be_value k (bytes_at buf p (kind_bytes k)))
      else Inl RangeError)"

text \<open>
  \<^verbatim>\<open>setFloat32\<close>, \<^verbatim>\<open>setFloat64\<close>, \<^verbatim>\<open>getFloat32\<close> and \<^verbatim>\<open>getFloat64\<close>: binary32 has 23 fraction and
  8 exponent bits, binary64 has 52 and 11.
\<close>

datatype float_kind = Float32 | Float64

fun float_bytes :: "float_kind \<Rightarrow> nat" where
  "float_bytes Float32 = 4"
| "float_bytes Float64 = 8"

fun frac_bits :: "float_kind \<Rightarrow> nat" where
  "frac_bits Float32 = 23"
| "frac_bits Float64 = 52"

fun exp_bits :: "float_kind \<Rightarrow> nat" where
  "exp_bits Float32 = 8"
| "exp_bits Float64 = 11"

definition float_encode :: "float_kind \<Rightarrow> number \<Rightarrow> byte list" where
  "float_encode fk x = be_bytes (float_bytes fk) (int (ieee_encode (frac_bits fk) (exp_bits fk) x))"

definition float_decode :: "float_kind \<Rightarrow> byte list \<Rightarrow> js_value" where
  "float_decode fk bs = number_value (ieee_decode (frac_bits fk) (exp_bits fk) (be_nat bs))"

definition dv_setFloat :: "float_kind \<Rightarrow> nat \<Rightarrow> js_value \<Rightarrow> byte list \<Rightarrow> error + byte list" where
  "dv_setFloat fk p v buf =
     (case to_number v of
        Inl e \<Rightarrow> Inl e
      | Inr x \<Rightarrow>
          if p + float_bytes fk \<le> length buf then Inr (write_at buf p (float_encode fk x))
          else Inl RangeError)"

definition dv_getFloat :: "float_kind \<Rightarrow> nat \<Rightarrow> byte list \<Rightarrow> error + js_value" where
  "dv_getFloat fk p buf =
     (if p + float_bytes fk \<le> length buf
      then Inr (float_decode fk (bytes_at buf p (float_bytes fk)))
      else Inl RangeError)"

section \<open>The type markers and the command registry\<close>

text \<open>
  Modelled from the spec: \<^verbatim>\<open>common/gl-types\<close>, \<^verbatim>\<open>common/gl-commands\<close> and \<^verbatim>\<open>common/util\<close> are
  not among the sources. The spec gives the closed set of types: fixed-width scalars
  (\<open>GLscalar\<close> for the six integer kinds, \<open>GLfloat\<close> for float32 and float64),
  \<open>GLboolean\<close> (stored as a 1-byte integer), \<open>GLref\<close> and \<open>GLlocation\<close> (an opaque
  handle id each, a positive integer, written with an integer accessor) and the
  variable-width \<open>GLarraybuffer\<close>, \<open>GLstring\<close> and \<open>GLimage\<close>. A descriptor has a numeric code, a name, the argument
  types and a return type that is absent, one type, or a list of one type. The command
  table itself, the set of ref-creating commands and the accessor of the two handle
  types are parameters (\<open>registry\<close>).
\<close>

datatype gl_type =
  GLscalar scalar_kind | GLfloat float_kind | GLboolean | GLref | GLlocation
  | GLarraybuffer | GLstring | GLimage

datatype ret_type = RetSingle gl_type | RetList gl_type

record command_types =
  num :: nat
  name :: string
  argTypes :: "gl_type list"
  returnType :: "ret_type option"

record registry =
  getCommandTypes :: "string \<Rightarrow> js_value list \<Rightarrow> command_types option"
  getCommandTypesByNum :: "nat \<Rightarrow> command_types option"
  GLrefCreators :: "string \<Rightarrow> bool"
  refKind :: scalar_kind
  locationKind :: scalar_kind

text \<open>
  \<^verbatim>\<open>type.type\<close> where it names an integer accessor: none for the variable-width types, and
  none for the float types, whose accessors are \<open>dv_setFloat\<close> and \<open>dv_getFloat\<close>.
\<close>

fun type_kind :: "registry \<Rightarrow> gl_type \<Rightarrow> scalar_kind option" where
  "type_kind reg (GLscalar k) = Some k"
| "type_kind reg (GLfloat fk) = None"
| "type_kind reg GLboolean = Some Uint8"
| "type_kind reg GLref = Some (refKind reg)"
| "type_kind reg GLlocation = Some (locationKind reg)"
| "type_kind reg GLarraybuffer = None"
| "type_kind reg GLstring = None"
| "type_kind reg GLimage = None"

text \<open>
  \<^verbatim>\<open>type.bytesCount\<close> in a return slot. The spec has ids there, written like a \<open>GLref\<close>: a
  return type without an integer accessor is not covered (\<open>no_accessor\<close> is what the
  model answers where the write or read pass meets one: \<^verbatim>\<open>view['set' + undefined]\<close> is not
  a function for a variable-width type).
\<close>

fun no_accessor :: "gl_type \<Rightarrow> error" where
  "no_accessor (GLfloat fk) = OutsideModel"
| "no_accessor ty = TypeError"

definition type_bytesCount :: "registry \<Rightarrow> gl_type \<Rightarrow> nat option" where
  "type_bytesCount reg ty = map_option kind_bytes (type_kind reg ty)"

text \<open>
  Modelled from the spec: \<^verbatim>\<open>ArrayBufferTypes\<close>, \<^verbatim>\<open>getTypeOfArray\<close> and
  \<^verbatim>\<open>getTypeOfArrayByNum\<close> (the element-type tag of a typed array and its inverse) are not
  among the sources; the tags are numbered here in the order of \<open>arr_kind\<close>.
\<close>

fun arr_num :: "arr_kind \<Rightarrow> nat" where
  "arr_num Int8Array = 1"
| "arr_num Uint8Array = 2"
| "arr_num Uint8ClampedArray = 3"
| "arr_num Int16Array = 4"
| "arr_num Uint16Array = 5"
| "arr_num Int32Array = 6"
| "arr_num Uint32Array = 7"
| "arr_num Float32Array = 8"
| "arr_num Float64Array = 9"

definition getTypeOfArrayByNum :: "nat \<Rightarrow> arr_kind option" where
  "getTypeOfArrayByNum n =
     (if n = 1 then Some Int8Array else if n = 2 then Some Uint8Array
      else if n = 3 then Some Uint8ClampedArray else if n = 4 then Some Int16Array
      else if n = 5 then Some Uint16Array else if n = 6 then Some Int32Array
      else if n = 7 then Some Uint32Array else if n = 8 then Some Float32Array
      else if n = 9 then Some Float64Array else None)"

section \<open>The process-wide state and the reference tags\<close>

text \<open>
  \<^verbatim>\<open>let uid = 1\<close> of \<^verbatim>\<open>common/misc.js\<close> is a module-level counter, shared by every Writer
  of the process. An object's id is stored on the object itself, under the hidden key
  \<^verbatim>\<open>GL_REF_KEY\<close>: \<open>refKeys\<close> maps an object's identity to that property, when it is set.
  \<open>console\<close> collects the lines of \<^verbatim>\<open>console.log\<close>.
\<close>

record world =
  uid :: nat
  refKeys :: "nat \<rightharpoonup> nat"
  console :: "string list"

definition initial_world :: world where
  "initial_world = \<lparr>uid = 1, refKeys = Map.empty, console = []\<rparr>"

text \<open>\<^verbatim>\<open>UID()\<close>: \<^verbatim>\<open>return uid++\<close>.\<close>

definition UID :: "world \<Rightarrow> nat \<times> world" where
  "UID W = (uid W, W\<lparr>uid := uid W + 1\<rparr>)"

text \<open>\<^verbatim>\<open>value[GL_REF_KEY]\<close>: a \<^verbatim>\<open>TypeError\<close> on \<^verbatim>\<open>undefined\<close> and \<^verbatim>\<open>null\<close>.\<close>

fun get_ref_key :: "world \<Rightarrow> js_value \<Rightarrow> error + js_value" where
  "get_ref_key W JUndefined = Inl TypeError"
| "get_ref_key W JNull = Inl TypeError"
| "get_ref_key W (JObj a) = Inr (case refKeys W a of None \<Rightarrow> JUndefined | Some k \<Rightarrow> JNum (int k))"
| "get_ref_key W v = Inr JUndefined"

section \<open>GLBufferWriter\<close>

text \<open>
  The Writer's fields. \<open>w_commands\<close> is the JavaScript array \<^verbatim>\<open>this.commands\<close>: its
  entries are numbers, and for a moment (between the two passes of a string argument)
  the \<^verbatim>\<open>Uint8Array\<close> of an encoded string. \<open>textEncoder\<close>, the module-level constant of
  \<^verbatim>\<open>gl-buffer-writer.js\<close>, is a parameter of the functions below: \<open>None\<close> where the
  platform has no \<^verbatim>\<open>TextEncoder\<close>.
\<close>

datatype buffer_type = BNum nat | BBytes "byte list"

type_synonym text_encoder = "(jsstring \<Rightarrow> byte list) option"

record writer =
  w_debug :: bool
  w_refPrefix :: "jsstring option"
  w_commands :: "buffer_type list"
  w_valueBuffers :: "byte list list"
  w_refMap :: "nat \<rightharpoonup> js_value"

definition GLBufferWriter_clearCommands :: "writer \<Rightarrow> writer" where
  "GLBufferWriter_clearCommands wr = wr\<lparr>w_commands := [], w_valueBuffers := []\<rparr>"

definition GLBufferWriter_reset :: "writer \<Rightarrow> writer" where
  "GLBufferWriter_reset wr = (GLBufferWriter_clearCommands wr)\<lparr>w_refMap := Map.empty\<rparr>"

text \<open>The constructor stores the options and calls \<^verbatim>\<open>reset()\<close>.\<close>

definition GLBufferWriter :: "bool \<Rightarrow> jsstring option \<Rightarrow> writer" where
  "GLBufferWriter debug prefix =
     GLBufferWriter_reset
       \<lparr>w_debug = debug, w_refPrefix = prefix, w_commands = [], w_valueBuffers = [],
        w_refMap = Map.empty\<rparr>"

subsection \<open>Tagging the objects a ref-creating command returns\<close>

text \<open>
  \<^verbatim>\<open>if (!o[GL_REF_KEY]) { const key = UID(); o[GL_REF_KEY] = key; this.refMap[key] = o; }\<close>
  A primitive cannot take the property in strict mode (the modules are strict), after
  \<^verbatim>\<open>UID()\<close> has run.
\<close>

fun tagObject :: "js_value \<Rightarrow> world \<times> (nat \<rightharpoonup> js_value) \<Rightarrow> (world \<times> (nat \<rightharpoonup> js_value)) outcome" where
  "tagObject JUndefined (W, rm) = Throws TypeError (W, rm)"
| "tagObject JNull (W, rm) = Throws TypeError (W, rm)"
| "tagObject (JObj a) (W, rm) =
     (if (case refKeys W a of None \<Rightarrow> True | Some k \<Rightarrow> k = 0)
      then (let (key, W') = UID W
            in Done (W'\<lparr>refKeys := (refKeys W')(a \<mapsto> key)\<rparr>, rm(key \<mapsto> JObj a)))
      else Done (W, rm))"
| "tagObject (JBool b) (W, rm) = Throws TypeError (snd (UID W), rm)"
| "tagObject (JNum n) (W, rm) = Throws TypeError (snd (UID W), rm)"
| "tagObject (JDouble w) (W, rm) = Throws TypeError (snd (UID W), rm)"
| "tagObject (JStr s) (W, rm) = Throws TypeError (snd (UID W), rm)"
| "tagObject v (W, rm) = Throws OutsideModel (W, rm)"

fun tagObjects :: "js_value list \<Rightarrow> world \<times> (nat \<rightharpoonup> js_value) \<Rightarrow> (world \<times> (nat \<rightharpoonup> js_value)) outcome" where
  "tagObjects [] st = Done st"
| "tagObjects (v # vs) st =
     (case tagObject v st of Throws e st' \<Rightarrow> Throws e st' | Done st' \<Rightarrow> tagObjects vs st')"

text \<open>\<^verbatim>\<open>const obj = args[args.length - 1]\<close>, then the \<^verbatim>\<open>Array.isArray\<close> test.\<close>

definition last_arg :: "js_value list \<Rightarrow> js_value" where
  "last_arg args = (if args = [] then JUndefined else last args)"

definition tagRefs :: "js_value \<Rightarrow> world \<times> (nat \<rightharpoonup> js_value) \<Rightarrow> (world \<times> (nat \<rightharpoonup> js_value)) outcome" where
  "tagRefs obj st = (case obj of JList vs \<Rightarrow> tagObjects vs st | _ \<Rightarrow> tagObject obj st)"

subsection \<open>The layout pass: \<^verbatim>\<open>_getBufferTypes\<close>\<close>

text \<open>
  One turn of the loop: the header entries pushed for the argument and its
  \<^verbatim>\<open>bytesCount\<close>. \<^verbatim>\<open>_readImage\<close> answers \<^verbatim>\<open>null\<close> for anything but an \<^verbatim>\<open>ImageData\<close>, and
  \<^verbatim>\<open>imgData.data\<close> then throws.
\<close>

fun layoutArg :: "text_encoder \<Rightarrow> registry \<Rightarrow> gl_type \<Rightarrow> js_value \<Rightarrow> error + (buffer_type list \<times> nat)" where
  "layoutArg te reg GLarraybuffer v =
     (case v of
        JTyped k bs \<Rightarrow>
          (let n = (length bs div BYTES_PER_ELEMENT k) * BYTES_PER_ELEMENT k
           in Inr ([BNum (arr_num k), BNum n], n))
      | _ \<Rightarrow> Inl OutsideModel)"
| "layoutArg te reg GLstring v =
     (case v of
        JStr str \<Rightarrow>
          (case te of
             Some encode \<Rightarrow> Inr ([BBytes (encode str)], length (encode str))
           | None \<Rightarrow> Inr ([BNum (length str * 2)], length str * 2))
      | _ \<Rightarrow> Inl OutsideModel)"
| "layoutArg te reg GLimage v =
     (case v of
        JImage w h d \<Rightarrow> Inr ([BNum w, BNum h], length d)
      | _ \<Rightarrow> Inl TypeError)"
| "layoutArg te reg (GLscalar k) v = Inr ([], kind_bytes k)"
| "layoutArg te reg (GLfloat fk) v = Inr ([], float_bytes fk)"
| "layoutArg te reg GLboolean v = Inr ([], kind_bytes Uint8)"
| "layoutArg te reg GLref v = Inr ([], kind_bytes (refKind reg))"
| "layoutArg te reg GLlocation v = Inr ([], kind_bytes (locationKind reg))"

fun layoutArgs :: "text_encoder \<Rightarrow> registry \<Rightarrow> gl_type list \<Rightarrow> js_value list \<Rightarrow> error + (buffer_type list \<times> nat)" where
  "layoutArgs te reg [] args = Inr ([], 0)"
| "layoutArgs te reg (ty # tys) args =
     (case layoutArg te reg ty (arg0 args) of
        Inl e \<Rightarrow> Inl e
      | Inr (bts, n) \<Rightarrow>
          (case layoutArgs te reg tys (tl args) of
             Inl e \<Rightarrow> Inl e
           | Inr (bts', bsize) \<Rightarrow> Inr (bts @ bts', n + bsize)))"

text \<open>The return slot: one id, or one id for each element of the last argument.\<close>

definition returnSize :: "registry \<Rightarrow> ret_type option \<Rightarrow> js_value list \<Rightarrow> error + nat" where
  "returnSize reg rt args =
     (case rt of
        None \<Rightarrow> Inr 0
      | Some (RetList rtype) \<Rightarrow>
          (case type_bytesCount reg rtype of
             None \<Rightarrow> Inl OutsideModel
           | Some n \<Rightarrow>
               (case last_arg args of
                  JList vs \<Rightarrow> Inr (n * length vs)
                | JUndefined \<Rightarrow> Inl TypeError
                | JNull \<Rightarrow> Inl TypeError
                | _ \<Rightarrow> Inl OutsideModel))
      | Some (RetSingle rtype) \<Rightarrow>
          (case type_bytesCount reg rtype of None \<Rightarrow> Inl OutsideModel | Some n \<Rightarrow> Inr n))"

definition getBufferTypes :: "text_encoder \<Rightarrow> registry \<Rightarrow> command_types \<Rightarrow> js_value list \<Rightarrow> error + (buffer_type list \<times> nat)" where
  "getBufferTypes te reg commandTypes args =
     (case layoutArgs te reg (argTypes commandTypes) args of
        Inl e \<Rightarrow> Inl e
      | Inr (bufferTypes, bsize) \<Rightarrow>
          (case returnSize reg (returnType commandTypes) args of
             Inl e \<Rightarrow> Inl e
           | Inr r \<Rightarrow> Inr (bufferTypes, bsize + r)))"

subsection \<open>The write pass: \<^verbatim>\<open>_writeBuffer\<close> and \<^verbatim>\<open>_writeArgValues\<close>\<close>

text \<open>A \<^verbatim>\<open>Uint16Array\<close> stores its elements in the byte order of the platform, little-endian here.\<close>

definition le16_bytes :: "jsstring \<Rightarrow> byte list" where
  "le16_bytes s = concat (map (\<lambda>c. [ucast c, ucast (drop_bit 8 c)]) s)"

fun le16_units :: "byte list \<Rightarrow> jsstring" where
  "le16_units (lo # hi # bs) = word_cat hi lo # le16_units bs"
| "le16_units bs = []"

text \<open>
  \<^verbatim>\<open>new arrType.type(buffer, pointer, size / BYTES_PER_ELEMENT)\<close> throws a \<^verbatim>\<open>RangeError\<close>
  when \<open>pointer\<close> is not a multiple of the element size or the view would leave the
  buffer. A string is stored code unit by code unit. \<^verbatim>\<open>arr.set(value)\<close> copies the
  elements of a typed array; for an \<^verbatim>\<open>ImageData\<close>, which has no \<^verbatim>\<open>length\<close> property, it
  copies nothing.
\<close>

definition writeBuffer :: "byte list \<Rightarrow> js_value \<Rightarrow> nat \<Rightarrow> nat \<Rightarrow> nat \<Rightarrow> error + byte list" where
  "writeBuffer buffer v ty pointer bsize =
     (case getTypeOfArrayByNum ty of
        None \<Rightarrow> Inl TypeError
      | Some k \<Rightarrow>
          (let len = bsize div BYTES_PER_ELEMENT k in
           if pointer mod BYTES_PER_ELEMENT k \<noteq> 0
              \<or> length buffer < pointer + len * BYTES_PER_ELEMENT k
           then Inl RangeError
           else
             (case v of
                JStr s \<Rightarrow>
                  if k = Uint16Array then Inr (write_at buffer pointer (le16_bytes (take len s)))
                  else Inl OutsideModel
              | JTyped k' bs \<Rightarrow>
                  if k' \<noteq> k then Inl OutsideModel
                  else if len < length bs div BYTES_PER_ELEMENT k then Inl RangeError
                  else Inr (write_at buffer pointer
                             (take ((length bs div BYTES_PER_ELEMENT k) * BYTES_PER_ELEMENT k) bs))
              | JImage w h d \<Rightarrow> Inr buffer
              | _ \<Rightarrow> Inl OutsideModel)))"

text \<open>\<^verbatim>\<open>bufferTypes[i]\<close> where a number is expected.\<close>

definition bt_num :: "buffer_type list \<Rightarrow> nat \<Rightarrow> nat option" where
  "bt_num bts i =
     (if i < length bts then (case bts ! i of BNum n \<Rightarrow> Some n | BBytes bs \<Rightarrow> None) else None)"

text \<open>The state of the loop: \<^verbatim>\<open>buf\<close>, \<^verbatim>\<open>pointer\<close>, \<^verbatim>\<open>btPointer\<close> and \<^verbatim>\<open>bufferTypes\<close>.\<close>

type_synonym wstate = "byte list \<times> nat \<times> nat \<times> buffer_type list"

fun writeValue :: "text_encoder \<Rightarrow> registry \<Rightarrow> gl_type \<Rightarrow> js_value \<Rightarrow> wstate \<Rightarrow> error + wstate" where
  "writeValue te reg GLarraybuffer v (buf, pointer, btPointer, bts) =
     (case (bt_num bts btPointer, bt_num bts (btPointer + 1)) of
        (Some ty, Some bsize) \<Rightarrow>
          (case writeBuffer buf v ty pointer bsize of
             Inl e \<Rightarrow> Inl e
           | Inr buf' \<Rightarrow> Inr (buf', pointer + bsize, btPointer + 2, bts))
      | _ \<Rightarrow> Inl OutsideModel)"
| "writeValue te reg GLstring v (buf, pointer, btPointer, bts) =
     (case te of
        Some encode \<Rightarrow>
          (if btPointer < length bts
           then (case bts ! btPointer of
                   BBytes strBytes \<Rightarrow>
                     if pointer + length strBytes \<le> length buf
                     then Inr (write_at buf pointer strBytes, pointer + length strBytes,
                               btPointer + 1, bts[btPointer := BNum (length strBytes)])
                     else Inl RangeError
                 | BNum n \<Rightarrow> Inl OutsideModel)
           else Inl OutsideModel)
      | None \<Rightarrow>
          (case bt_num bts btPointer of
             Some bsize \<Rightarrow>
               (case writeBuffer buf v (arr_num Uint16Array) pointer bsize of
                  Inl e \<Rightarrow> Inl e
                | Inr buf' \<Rightarrow> Inr (buf', pointer + bsize, btPointer + 1, bts))
           | None \<Rightarrow> Inl OutsideModel))"
| "writeValue te reg GLimage v (buf, pointer, btPointer, bts) =
     (case (bt_num bts btPointer, bt_num bts (btPointer + 1)) of
        (Some w, Some h) \<Rightarrow>
          (case writeBuffer buf v (arr_num Uint8ClampedArray) pointer (w * h * 4) of
             Inl e \<Rightarrow> Inl e
           | Inr buf' \<Rightarrow> Inr (buf', pointer + w * h * 4, btPointer + 2, bts))
      | _ \<Rightarrow> Inl OutsideModel)"
| "writeValue te reg (GLfloat fk) v (buf, pointer, btPointer, bts) =
     (case dv_setFloat fk pointer v buf of
        Inl e \<Rightarrow> Inl e
      | Inr buf' \<Rightarrow> Inr (buf', pointer + float_bytes fk, btPointer, bts))"
| "writeValue te reg ty v (buf, pointer, btPointer, bts) =
     (case type_kind reg ty of
        None \<Rightarrow> Inl OutsideModel
      | Some k \<Rightarrow>
          (case dv_set k pointer (if ty = GLboolean then JNum (if truthy v then 1 else 0) else v) buf of
             Inl e \<Rightarrow> Inl e
           | Inr buf' \<Rightarrow> Inr (buf', pointer + kind_bytes k, btPointer, bts)))"

text \<open>One turn of the loop: a \<open>GLref\<close> argument is first replaced by its \<^verbatim>\<open>GL_REF_KEY\<close>.\<close>

definition writeArg :: "text_encoder \<Rightarrow> registry \<Rightarrow> world \<Rightarrow> gl_type \<Rightarrow> js_value \<Rightarrow> wstate \<Rightarrow> error + wstate" where
  "writeArg te reg W ty value st =
     (case (if ty = GLref then get_ref_key W value else Inr value) of
        Inl e \<Rightarrow> Inl e
      | Inr v \<Rightarrow> writeValue te reg ty v st)"

fun writeArgs :: "text_encoder \<Rightarrow> registry \<Rightarrow> world \<Rightarrow> gl_type list \<Rightarrow> js_value list \<Rightarrow> wstate \<Rightarrow> error + wstate" where
  "writeArgs te reg W [] values st = Inr st"
| "writeArgs te reg W (ty # tys) values st =
     (case writeArg te reg W ty (arg0 values) st of
        Inl e \<Rightarrow> Inl e
      | Inr st' \<Rightarrow> writeArgs te reg W tys (tl values) st')"

fun writeReturnList :: "registry \<Rightarrow> world \<Rightarrow> gl_type \<Rightarrow> js_value list \<Rightarrow> byte list \<Rightarrow> nat \<Rightarrow> error + byte list" where
  "writeReturnList reg W rtype [] buf pointer = Inr buf"
| "writeReturnList reg W rtype (value # rValues) buf pointer =
     (case (if rtype = GLref then get_ref_key W value else Inr value) of
        Inl e \<Rightarrow> Inl e
      | Inr v \<Rightarrow>
          (case type_kind reg rtype of
             None \<Rightarrow> Inl (no_accessor rtype)
           | Some k \<Rightarrow>
               (case dv_set k pointer v buf of
                  Inl e \<Rightarrow> Inl e
                | Inr buf' \<Rightarrow> writeReturnList reg W rtype rValues buf' (pointer + kind_bytes k))))"

definition writeReturn :: "registry \<Rightarrow> world \<Rightarrow> ret_type option \<Rightarrow> js_value \<Rightarrow> byte list \<Rightarrow> nat \<Rightarrow> error + byte list" where
  "writeReturn reg W rt value buf pointer =
     (case rt of
        None \<Rightarrow> Inr buf
      | Some (RetList rtype) \<Rightarrow>
          (case value of
             JList rValues \<Rightarrow> writeReturnList reg W rtype rValues buf pointer
           | JTyped k bs \<Rightarrow> Inl OutsideModel
           | _ \<Rightarrow> Inl TypeError)
      | Some (RetSingle rtype) \<Rightarrow>
          (case (if rtype = GLref then get_ref_key W value else Inr value) of
             Inl e \<Rightarrow> Inl e
           | Inr v \<Rightarrow>
               (case type_kind reg rtype of
                  None \<Rightarrow> Inl (no_accessor rtype)
                | Some k \<Rightarrow> dv_set k pointer v buf)))"

definition writeArgValues :: "text_encoder \<Rightarrow> registry \<Rightarrow> world \<Rightarrow> js_value list \<Rightarrow> command_types \<Rightarrow> buffer_type list \<Rightarrow> nat \<Rightarrow> error + (byte list \<times> buffer_type list)" where
  "writeArgValues te reg W values commandTypes bufferTypes bsize =
     (let buf = replicate bsize 0 in
      if length values = 0 then Inr (buf, bufferTypes)
      else
        (case writeArgs te reg W (argTypes commandTypes) values (buf, 0, 0, bufferTypes) of
           Inl e \<Rightarrow> Inl e
         | Inr (buf', pointer, btPointer, bufferTypes') \<Rightarrow>
             (case writeReturn reg W (returnType commandTypes)
                     (nth_or_undefined values (length (argTypes commandTypes))) buf' pointer of
                Inl e \<Rightarrow> Inl e
              | Inr buf'' \<Rightarrow> Inr (buf'', bufferTypes'))))"

subsection \<open>\<^verbatim>\<open>_writeCommand\<close>, \<^verbatim>\<open>_saveCommand\<close>, \<^verbatim>\<open>addCommand\<close>, \<^verbatim>\<open>getBuffer\<close>\<close>

definition writeCommand :: "command_types \<Rightarrow> buffer_type list \<Rightarrow> writer \<Rightarrow> writer" where
  "writeCommand commandTypes bufferTypes wr =
     wr\<lparr>w_commands := w_commands wr @ BNum (num commandTypes) # bufferTypes\<rparr>"

definition saveCommand :: "text_encoder \<Rightarrow> registry \<Rightarrow> command_types \<Rightarrow> string \<Rightarrow> js_value list \<Rightarrow> world \<times> writer \<Rightarrow> (world \<times> writer) outcome" where
  "saveCommand te reg commandTypes nm args st =
     (case (if GLrefCreators reg nm then tagRefs (last_arg args) (fst st, w_refMap (snd st))
            else Done (fst st, w_refMap (snd st))) of
        Throws e (W, rm) \<Rightarrow> Throws e (W, (snd st)\<lparr>w_refMap := rm\<rparr>)
      | Done (W, rm) \<Rightarrow>
          (let wr = (snd st)\<lparr>w_refMap := rm\<rparr> in
           case getBufferTypes te reg commandTypes args of
             Inl e \<Rightarrow> Throws e (W, wr)
           | Inr (bufferTypes, bsize) \<Rightarrow>
               (case writeArgValues te reg W args commandTypes bufferTypes bsize of
                  Inl e \<Rightarrow> Throws e (W, wr)
                | Inr (buffer, bufferTypes') \<Rightarrow>
                    Done (W, (writeCommand commandTypes bufferTypes' wr)
                               \<lparr>w_valueBuffers := w_valueBuffers wr @ [buffer]\<rparr>))))"

definition addCommand :: "text_encoder \<Rightarrow> registry \<Rightarrow> string \<Rightarrow> js_value list \<Rightarrow> world \<times> writer \<Rightarrow> (world \<times> writer) outcome" where
  "addCommand te reg nm args st =
     (case getCommandTypes reg nm args of
        None \<Rightarrow>
          Done (if w_debug (snd st)
                then (fst st)\<lparr>console := console (fst st) @ [''[addCommand] ignore command '' @ nm]\<rparr>
                else fst st, snd st)
      | Some commandTypes \<Rightarrow>
          (let l = length (argTypes commandTypes)
                   + (if returnType commandTypes \<noteq> None then 1 else 0) in
           if l \<noteq> length args
           then Throws (Error (''[addCommand] wrong argument number '' @ nm)) st
           else saveCommand te reg commandTypes nm args st))"

text \<open>
  The wire data. \<^verbatim>\<open>new Uint32Array(this.commands)\<close> converts every entry to a 32-bit
  unsigned integer (a \<^verbatim>\<open>Uint8Array\<close> left in the list would go through its string form).
\<close>

record wire =
  d_refPrefix :: jsstring
  d_commands :: "32 word list"
  d_values :: "byte list list"

fun to_uint32 :: "buffer_type \<Rightarrow> 32 word" where
  "to_uint32 (BNum n) = word_of_nat n"
| "to_uint32 (BBytes []) = 0"
| "to_uint32 (BBytes [b]) = ucast b"
| "to_uint32 (BBytes bs) = 0"

definition getBuffer :: "writer \<Rightarrow> wire" where
  "getBuffer wr =
     \<lparr>d_refPrefix = (case w_refPrefix wr of None \<Rightarrow> [] | Some p \<Rightarrow> p),
      d_commands = map to_uint32 (w_commands wr),
      d_values = w_valueBuffers wr\<rparr>"

section \<open>GLBufferPlayer\<close>

text \<open>
  A decoded record \<^verbatim>\<open>{name, types, args, ref}\<close>; \<^verbatim>\<open>ref\<close> is \<^verbatim>\<open>0\<close>, one id or a list of
  ids, an id being the string \<^verbatim>\<open>refPrefix + number\<close>. \<open>textDecoder\<close>, the module-level
  constant of \<^verbatim>\<open>gl-buffer-player.js\<close>, is a parameter: \<open>TextDecoder decode\<close> where the
  platform has a \<^verbatim>\<open>TextDecoder\<close>, and \<open>NoTextDecoder lim\<close> where it has none. The Player
  then decodes a string with \<^verbatim>\<open>String.fromCharCode.apply(null, arr)\<close>, which passes every code
  unit as one argument of the call: \<open>lim\<close> is the greatest number of arguments that the
  engine accepts there, and the call throws a \<^verbatim>\<open>RangeError\<close> beyond it.
\<close>

datatype text_decoder = TextDecoder "byte list \<Rightarrow> jsstring" | NoTextDecoder nat

datatype ref_value = Ref0 | RefId jsstring | RefIds "jsstring list"

record command =
  c_name :: string
  c_types :: "gl_type list"
  c_args :: "js_value list"
  c_ref :: ref_value

record player =
  p_commands :: "command list"
  p_refMap :: "jsstring \<rightharpoonup> js_value"

definition GLBufferPlayer :: player where
  "GLBufferPlayer = \<lparr>p_commands = [], p_refMap = Map.empty\<rparr>"

definition getCommands :: "player \<Rightarrow> command list" where
  "getCommands p = p_commands p"

definition GLBufferPlayer_clearCommands :: "player \<Rightarrow> player" where
  "GLBufferPlayer_clearCommands p = p\<lparr>p_commands := []\<rparr>"

definition GLBufferPlayer_reset :: "player \<Rightarrow> player" where
  "GLBufferPlayer_reset p = (GLBufferPlayer_clearCommands p)\<lparr>p_refMap := Map.empty\<rparr>"

subsection \<open>Numbers in the decoder\<close>

text \<open>The decimal string of an integer, as \<^verbatim>\<open>refPrefix + v\<close> appends it.\<close>

fun dec_digits :: "nat \<Rightarrow> jsstring" where
  "dec_digits n =
     (if n < 10 then [word_of_nat (48 + n)]
      else dec_digits (n div 10) @ [word_of_nat (48 + n mod 10)])"

definition number_to_string :: "int \<Rightarrow> jsstring" where
  "number_to_string n = (if n < 0 then 45 # dec_digits (nat (- n)) else dec_digits (nat n))"

text \<open>
  \<^verbatim>\<open>comBuffer[cPt]\<close> is \<^verbatim>\<open>undefined\<close> past the end of the stream. An offset or a byte count
  computed from \<^verbatim>\<open>undefined\<close> is \<^verbatim>\<open>NaN\<close>: \<open>None\<close> below. An accessor or a view constructor
  takes \<^verbatim>\<open>NaN\<close> as the index 0.
\<close>

definition word_at :: "32 word list \<Rightarrow> nat \<Rightarrow> nat option" where
  "word_at comBuffer i = (if i < length comBuffer then Some (unat (comBuffer ! i)) else None)"

fun to_index :: "nat option \<Rightarrow> nat" where
  "to_index None = 0"
| "to_index (Some n) = n"

fun num_add :: "nat option \<Rightarrow> nat option \<Rightarrow> nat option" where
  "num_add (Some a) (Some b) = Some (a + b)"
| "num_add a b = None"

fun num_mul :: "nat option \<Rightarrow> nat option \<Rightarrow> nat option" where
  "num_mul (Some a) (Some b) = Some (a * b)"
| "num_mul a b = None"

subsection \<open>\<^verbatim>\<open>_readArray\<close>, \<^verbatim>\<open>_readString\<close>, \<^verbatim>\<open>_createImageData\<close>\<close>

text \<open>\<^verbatim>\<open>new arrType(values, pt, arrSize / arrType.BYTES_PER_ELEMENT)\<close>: the length is truncated.\<close>

definition readArray :: "nat option \<Rightarrow> byte list \<Rightarrow> arr_kind \<Rightarrow> nat option \<Rightarrow> error + js_value" where
  "readArray pt buf arrType arrSize =
     (let off = to_index pt;
          len = (case arrSize of None \<Rightarrow> 0 | Some n \<Rightarrow> n div BYTES_PER_ELEMENT arrType) in
      if off mod BYTES_PER_ELEMENT arrType \<noteq> 0
         \<or> length buf < off + len * BYTES_PER_ELEMENT arrType
      then Inl RangeError
      else Inr (JTyped arrType (bytes_at buf off (len * BYTES_PER_ELEMENT arrType))))"

text \<open>
  With a decoder, a \<^verbatim>\<open>Uint8Array\<close> of \<open>bytesCount\<close> bytes (the rest of the buffer when the
  count is \<^verbatim>\<open>undefined\<close>) is decoded; without, a \<^verbatim>\<open>Uint16Array\<close> of \<open>bytesCount / 2\<close> code
  units is constructed first (a \<^verbatim>\<open>RangeError\<close> at an odd offset or outside the buffer), and
  its elements are then the arguments of \<^verbatim>\<open>String.fromCharCode.apply\<close> (a \<^verbatim>\<open>RangeError\<close> when
  they are more than the engine accepts).
\<close>

definition readString :: "text_decoder \<Rightarrow> nat option \<Rightarrow> byte list \<Rightarrow> nat option \<Rightarrow> error + jsstring" where
  "readString td pt buf bytesCount =
     (let off = to_index pt in
      case td of
        TextDecoder decode \<Rightarrow>
          (case bytesCount of
             None \<Rightarrow> if length buf < off then Inl RangeError else Inr (decode (drop off buf))
           | Some n \<Rightarrow> if length buf < off + n then Inl RangeError else Inr (decode (bytes_at buf off n)))
      | NoTextDecoder lim \<Rightarrow>
          (let len = (case bytesCount of None \<Rightarrow> 0 | Some n \<Rightarrow> n div 2) in
           if off mod 2 \<noteq> 0 \<or> length buf < off + len * 2 then Inl RangeError
           else if lim < len then Inl RangeError
           else Inr (le16_units (bytes_at buf off (len * 2)))))"

text \<open>
  \<^verbatim>\<open>new ImageData(arr, w, h)\<close>, the branch taken wherever the constructor exists: the
  platform refuses an empty array, a zero width and dimensions that do not fit the data.
\<close>

definition createImageData :: "js_value \<Rightarrow> nat option \<Rightarrow> nat option \<Rightarrow> error + js_value" where
  "createImageData arr w h =
     (case (arr, w, h) of
        (JTyped k bs, Some sw, Some sh) \<Rightarrow>
          if length bs \<noteq> 0 \<and> length bs mod 4 = 0 \<and> sw \<noteq> 0
             \<and> (length bs div 4) mod sw = 0 \<and> sh = (length bs div 4) div sw
          then Inr (JImage sw sh bs)
          else Inl DOMException
      | _ \<Rightarrow> Inl DOMException)"

subsection \<open>\<^verbatim>\<open>_readCommand\<close>\<close>

text \<open>
  One turn of the argument loop, at the positions \<open>cPt\<close> and \<open>vPt\<close>: the decoded value,
  the \<^verbatim>\<open>bytesCount\<close> by which \<open>vPt\<close> advances, and the new \<open>cPt\<close>.
\<close>

fun readArg :: "text_decoder \<Rightarrow> registry \<Rightarrow> 32 word list \<Rightarrow> byte list \<Rightarrow> jsstring \<Rightarrow> gl_type \<Rightarrow> nat \<Rightarrow> nat option \<Rightarrow> error + (js_value \<times> nat option \<times> nat)" where
  "readArg td reg comBuffer buf prefix GLarraybuffer cPt vPt =
     (case (case word_at comBuffer cPt of None \<Rightarrow> None | Some n \<Rightarrow> getTypeOfArrayByNum n) of
        None \<Rightarrow> Inl TypeError
      | Some arrType \<Rightarrow>
          (let bytesCount = word_at comBuffer (cPt + 1) in
           case readArray vPt buf arrType bytesCount of
             Inl e \<Rightarrow> Inl e
           | Inr v \<Rightarrow> Inr (v, bytesCount, cPt + 2)))"
| "readArg td reg comBuffer buf prefix GLstring cPt vPt =
     (let bytesCount = word_at comBuffer cPt in
      case readString td vPt buf bytesCount of
        Inl e \<Rightarrow> Inl e
      | Inr str \<Rightarrow> Inr (JStr str, bytesCount, cPt + 1))"
| "readArg td reg comBuffer buf prefix GLimage cPt vPt =
     (let w = word_at comBuffer cPt; h = word_at comBuffer (cPt + 1);
          bytesCount = num_mul (num_mul w h) (Some 4) in
      case readArray vPt buf Uint8ClampedArray bytesCount of
        Inl e \<Rightarrow> Inl e
      | Inr arr \<Rightarrow>
          (case createImageData arr w h of
             Inl e \<Rightarrow> Inl e
           | Inr imageData \<Rightarrow> Inr (imageData, bytesCount, cPt + 2)))"
| "readArg td reg comBuffer buf prefix (GLfloat fk) cPt vPt =
     (case dv_getFloat fk (to_index vPt) buf of
        Inl e \<Rightarrow> Inl e
      | Inr v \<Rightarrow> Inr (v, Some (float_bytes fk), cPt))"
| "readArg td reg comBuffer buf prefix ty cPt vPt =
     (case type_kind reg ty of
        None \<Rightarrow> Inl TypeError
      | Some k \<Rightarrow>
          (case dv_get k (to_index vPt) buf of
             Inl e \<Rightarrow> Inl e
           | Inr v \<Rightarrow>
               Inr (if ty = GLboolean then JBool (v \<noteq> 0)
                    else if ty = GLref \<or> ty = GLlocation then JStr (prefix @ number_to_string v)
                    else JNum v,
                    Some (kind_bytes k), cPt)))"

fun readArgs :: "text_decoder \<Rightarrow> registry \<Rightarrow> 32 word list \<Rightarrow> byte list \<Rightarrow> jsstring \<Rightarrow> gl_type list \<Rightarrow> nat \<Rightarrow> nat option \<Rightarrow> error + (js_value list \<times> nat \<times> nat option)" where
  "readArgs td reg comBuffer buf prefix [] cPt vPt = Inr ([], cPt, vPt)"
| "readArgs td reg comBuffer buf prefix (ty # tys) cPt vPt =
     (case readArg td reg comBuffer buf prefix ty cPt vPt of
        Inl e \<Rightarrow> Inl e
      | Inr (v, bytesCount, cPt') \<Rightarrow>
          (case readArgs td reg comBuffer buf prefix tys cPt' (num_add vPt bytesCount) of
             Inl e \<Rightarrow> Inl e
           | Inr (args, cPt'', vPt') \<Rightarrow> Inr (v # args, cPt'', vPt')))"

text \<open>\<^verbatim>\<open>while (vPt < values.buffer.byteLength) { ref.push(...); vPt += bytesCount }\<close>\<close>

function readRefs :: "byte list \<Rightarrow> jsstring \<Rightarrow> scalar_kind \<Rightarrow> nat \<Rightarrow> error + jsstring list" where
  "readRefs buf prefix k vPt =
     (if vPt < length buf
      then (case dv_get k vPt buf of
              Inl e \<Rightarrow> Inl e
            | Inr v \<Rightarrow>
                (case readRefs buf prefix k (vPt + kind_bytes k) of
                   Inl e \<Rightarrow> Inl e
                 | Inr ids \<Rightarrow> Inr ((prefix @ number_to_string v) # ids)))
      else Inr [])"
  by pat_completeness auto
termination
proof (relation "measure (\<lambda>(buf, prefix, k, vPt). length buf - vPt)")
  show "wf (measure (\<lambda>(buf, prefix, k, vPt). length buf - vPt))"
    by simp
next
  fix buf :: "byte list" and prefix :: jsstring and k :: scalar_kind and vPt :: nat
  assume "vPt < length buf"
  then show "((buf, prefix, k, vPt + kind_bytes k), (buf, prefix, k, vPt))
               \<in> measure (\<lambda>(buf, prefix, k, vPt). length buf - vPt)"
    by (cases k) auto
qed

declare readRefs.simps [simp del]

definition readReturn :: "registry \<Rightarrow> byte list \<Rightarrow> jsstring \<Rightarrow> ret_type option \<Rightarrow> nat option \<Rightarrow> error + ref_value" where
  "readReturn reg buf prefix rt vPt =
     (case rt of
        None \<Rightarrow> Inr Ref0
      | Some (RetList rtype) \<Rightarrow>
          (case vPt of
             None \<Rightarrow> Inr (RefIds [])
           | Some p \<Rightarrow>
               (case type_kind reg rtype of
                  None \<Rightarrow> if p < length buf then Inl (no_accessor rtype) else Inr (RefIds [])
                | Some k \<Rightarrow>
                    (case readRefs buf prefix k p of
                       Inl e \<Rightarrow> Inl e
                     | Inr ids \<Rightarrow> Inr (RefIds ids))))
      | Some (RetSingle rtype) \<Rightarrow>
          (case type_kind reg rtype of
             None \<Rightarrow> Inl (no_accessor rtype)
           | Some k \<Rightarrow>
               (case dv_get k (to_index vPt) buf of
                  Inl e \<Rightarrow> Inl e
                | Inr v \<Rightarrow> Inr (RefId (prefix @ number_to_string v)))))"

definition readCommand :: "text_decoder \<Rightarrow> registry \<Rightarrow> nat \<Rightarrow> 32 word list \<Rightarrow> byte list \<Rightarrow> jsstring \<Rightarrow> error + (nat \<times> command)" where
  "readCommand td reg cPt comBuffer buf prefix =
     (case (case word_at comBuffer cPt of None \<Rightarrow> None | Some n \<Rightarrow> getCommandTypesByNum reg n) of
        None \<Rightarrow> Inl TypeError
      | Some commandTypes \<Rightarrow>
          (case readArgs td reg comBuffer buf prefix (argTypes commandTypes) (cPt + 1) (Some 0) of
             Inl e \<Rightarrow> Inl e
           | Inr (args, cPt', vPt) \<Rightarrow>
               (case readReturn reg buf prefix (returnType commandTypes) vPt of
                  Inl e \<Rightarrow> Inl e
                | Inr ref \<Rightarrow>
                    Inr (cPt', \<lparr>c_name = name commandTypes, c_types = argTypes commandTypes,
                               c_args = args, c_ref = ref\<rparr>))))"

subsection \<open>\<^verbatim>\<open>_parse\<close> and \<^verbatim>\<open>addBuffer\<close>\<close>

text \<open>
  \<^verbatim>\<open>while (cPt < commands.length)\<close>: every turn takes the next value buffer
  (\<^verbatim>\<open>data.values[vIdx++]\<close>; \<^verbatim>\<open>new DataView(undefined)\<close> throws when there is none) and pushes
  the decoded record at once, so the records decoded before a failure stay in the list.
\<close>

fun parse_loop :: "text_decoder \<Rightarrow> registry \<Rightarrow> 32 word list \<Rightarrow> jsstring \<Rightarrow> nat \<Rightarrow> byte list list \<Rightarrow> player \<Rightarrow> player outcome" where
  "parse_loop td reg comBuffer prefix cPt [] p =
     (if cPt < length comBuffer then Throws TypeError p else Done p)"
| "parse_loop td reg comBuffer prefix cPt (buf # bufs) p =
     (if cPt < length comBuffer
      then (case readCommand td reg cPt comBuffer buf prefix of
              Inl e \<Rightarrow> Throws e p
            | Inr (cPt', c) \<Rightarrow>
                parse_loop td reg comBuffer prefix cPt' bufs (p\<lparr>p_commands := p_commands p @ [c]\<rparr>))
      else Done p)"

definition parse :: "text_decoder \<Rightarrow> registry \<Rightarrow> wire \<Rightarrow> player \<Rightarrow> player outcome" where
  "parse td reg data p = parse_loop td reg (d_commands data) (d_refPrefix data) 0 (d_values data) p"

definition addBuffer :: "text_decoder \<Rightarrow> registry \<Rightarrow> wire \<Rightarrow> player \<Rightarrow> player outcome" where
  "addBuffer td reg data p = parse td reg data p"

subsection \<open>\<^verbatim>\<open>playback\<close>\<close>

text \<open>
  The target \<^verbatim>\<open>gl\<close> is a table of methods over a state of its own; a method may throw.
  The interceptor \<^verbatim>\<open>step\<close>, when it is a function, maps the name and the resolved
  arguments to the arguments passed on.
\<close>

type_synonym 'g gl_target = "string \<Rightarrow> (js_value list \<Rightarrow> 'g \<Rightarrow> (error + js_value) \<times> 'g) option"

type_synonym interceptor = "(string \<Rightarrow> js_value list \<Rightarrow> js_value list) option"

text \<open>
  \<^verbatim>\<open>this.refMap[v]\<close>: a decoded reference is the string \<^verbatim>\<open>refPrefix + id\<close>, and that is what
  \<^verbatim>\<open>_readCommand\<close> stores for a \<open>GLref\<close> or \<open>GLlocation\<close>. Any other value would be
  converted to a property key first, which the model follows for an integer of fewer than
  22 digits only.
\<close>

definition refMap_lookup :: "(jsstring \<rightharpoonup> js_value) \<Rightarrow> js_value \<Rightarrow> error + js_value" where
  "refMap_lookup rm v =
     (case v of
        JStr s \<Rightarrow> Inr (case rm s of None \<Rightarrow> JUndefined | Some x \<Rightarrow> x)
      | JNum n \<Rightarrow>
          if \<bar>n\<bar> < 10 ^ 21
          then Inr (case rm (number_to_string n) of None \<Rightarrow> JUndefined | Some x \<Rightarrow> x)
          else Inl OutsideModel
      | _ \<Rightarrow> Inl OutsideModel)"

fun prepareArgs_loop :: "(jsstring \<rightharpoonup> js_value) \<Rightarrow> gl_type list \<Rightarrow> js_value list \<Rightarrow> error + js_value list" where
  "prepareArgs_loop rm [] args = Inr []"
| "prepareArgs_loop rm (ty # tys) args =
     (case (if ty = GLref \<or> ty = GLlocation then refMap_lookup rm (arg0 args) else Inr (arg0 args)) of
        Inl e \<Rightarrow> Inl e
      | Inr v \<Rightarrow>
          (case prepareArgs_loop rm tys (tl args) of
             Inl e \<Rightarrow> Inl e
           | Inr vs \<Rightarrow> Inr (v # vs)))"

definition prepareArgs :: "(jsstring \<rightharpoonup> js_value) \<Rightarrow> command \<Rightarrow> error + js_value list" where
  "prepareArgs rm c = prepareArgs_loop rm (c_types c) (c_args c)"

text \<open>
  \<^verbatim>\<open>const name = c.name, ref = c.command.ref\<close>: the records that \<^verbatim>\<open>_parse\<close> pushes are the
  inner objects \<^verbatim>\<open>{name, types, args, ref}\<close>, which have no property \<^verbatim>\<open>command\<close>; reading
  \<^verbatim>\<open>.ref\<close> of \<^verbatim>\<open>undefined\<close> throws a \<^verbatim>\<open>TypeError\<close>.
\<close>

definition command_property :: "command \<Rightarrow> command option" where
  "command_property c = None"

text \<open>The key under which \<^verbatim>\<open>this.refMap[ref] = result\<close> stores: an array is joined with commas.\<close>

fun join_comma :: "jsstring list \<Rightarrow> jsstring" where
  "join_comma [] = []"
| "join_comma [s] = s"
| "join_comma (s # ss) = s @ 44 # join_comma ss"

fun ref_key :: "ref_value \<Rightarrow> jsstring option" where
  "ref_key Ref0 = None"
| "ref_key (RefId s) = (if s = [] then None else Some s)"
| "ref_key (RefIds ss) = Some (join_comma ss)"

fun playback_loop :: "'g gl_target \<Rightarrow> interceptor \<Rightarrow> command list \<Rightarrow> (jsstring \<rightharpoonup> js_value) \<times> 'g \<Rightarrow> ((jsstring \<rightharpoonup> js_value) \<times> 'g) outcome" where
  "playback_loop gl step [] st = Done st"
| "playback_loop gl step (c # cs) st =
     (case command_property c of
        None \<Rightarrow> Throws TypeError st
      | Some inner \<Rightarrow>
          (case prepareArgs (fst st) c of
             Inl e \<Rightarrow> Throws e st
           | Inr rargs \<Rightarrow>
               (let rargs' = (case step of None \<Rightarrow> rargs | Some f \<Rightarrow> f (c_name c) rargs) in
                case gl (c_name c) of
                  None \<Rightarrow> Throws TypeError st
                | Some method \<Rightarrow>
                    (case method rargs' (snd st) of
                       (Inl e, g') \<Rightarrow> Throws e (fst st, g')
                     | (Inr result, g') \<Rightarrow>
                         playback_loop gl step cs
                           (case ref_key (c_ref inner) of
                              None \<Rightarrow> (fst st, g')
                            | Some key \<Rightarrow> ((fst st)(key \<mapsto> result), g'))))))"

definition playback :: "'g gl_target \<Rightarrow> interceptor \<Rightarrow> player \<times> 'g \<Rightarrow> (player \<times> 'g) outcome" where
  "playback gl step st =
     (case playback_loop gl step (getCommands (fst st)) (p_refMap (fst st), snd st) of
        Done (rm, g) \<Rightarrow> Done ((fst st)\<lparr>p_refMap := rm\<rparr>, g)
      | Throws e (rm, g) \<Rightarrow> Throws e ((fst st)\<lparr>p_refMap := rm\<rparr>, g))"

section \<open>An example registry and example sessions\<close>

text \<open>
  A small command table in the shape of the WebGL one, for the concrete evaluations
  below: the numeric codes are arbitrary.
\<close>

definition demo_table :: "command_types list" where
  "demo_table =
     [\<lparr>num = 1, name = ''createBuffer'', argTypes = [], returnType = Some (RetSingle GLref)\<rparr>,
      \<lparr>num = 2, name = ''bindBuffer'', argTypes = [GLscalar Uint32, GLref], returnType = None\<rparr>,
      \<lparr>num = 3, name = ''flush'', argTypes = [], returnType = None\<rparr>,
      \<lparr>num = 4, name = ''texImage2D'',
        argTypes = [GLscalar Uint32, GLscalar Int32, GLscalar Int32, GLscalar Uint32,
                    GLscalar Uint32, GLimage],
        returnType = None\<rparr>,
      \<lparr>num = 5, name = ''shaderSource'', argTypes = [GLref, GLstring], returnType = None\<rparr>,
      \<lparr>num = 6, name = ''uniformMatrix2fv'', argTypes = [GLlocation, GLboolean, GLarraybuffer],
        returnType = None\<rparr>,
      \<lparr>num = 7, name = ''bufferData'', argTypes = [GLscalar Uint32, GLarraybuffer, GLscalar Uint32],
        returnType = None\<rparr>,
      \<lparr>num = 8, name = ''uniform1f'', argTypes = [GLlocation, GLfloat Float32], returnType = None\<rparr>]"

definition demo_registry :: registry where
  "demo_registry =
     \<lparr>getCommandTypes = (\<lambda>nm args. find (\<lambda>c. name c = nm) demo_table),
      getCommandTypesByNum = (\<lambda>n. find (\<lambda>c. num c = n) demo_table),
      GLrefCreators = (\<lambda>nm. nm = ''createBuffer''),
      refKind = Uint32, locationKind = Uint32\<rparr>"

text \<open>The state an operation leaves, whether it returned or threw.\<close>

fun outcome_state :: "'s outcome \<Rightarrow> 's" where
  "outcome_state (Done s) = s"
| "outcome_state (Throws e s) = s"

text \<open>
  A Writer constructed in a fresh process, and the state after one
  \<^verbatim>\<open>addCommand('createBuffer', obj5)\<close> in it.
\<close>

definition fresh_session :: "world \<times> writer" where
  "fresh_session = (initial_world, GLBufferWriter False None)"

definition prior_session :: "world \<times> writer" where
  "prior_session =
     outcome_state (addCommand None demo_registry ''createBuffer'' [JObj 5] fresh_session)"

section \<open>Auxiliary notions for the statements\<close>

text \<open>
  The number of bytes of the value buffer that the decoder's read of one argument
  touches, as \<^verbatim>\<open>_readCommand\<close> computes it from the header words at \<open>cPt\<close>: the extent
  of the typed-array view it constructs (a length that is not a multiple of the element
  size is truncated), or the width of the accessor. \<open>None\<close> where no view of a fixed
  extent is constructed (an unknown array tag; a string whose count is \<^verbatim>\<open>undefined\<close>,
  read to the end of the buffer).
\<close>

fun read_extent :: "text_decoder \<Rightarrow> registry \<Rightarrow> 32 word list \<Rightarrow> gl_type \<Rightarrow> nat \<Rightarrow> nat option" where
  "read_extent td reg comBuffer GLarraybuffer cPt =
     (case word_at comBuffer cPt of
        None \<Rightarrow> None
      | Some t \<Rightarrow>
          (case getTypeOfArrayByNum t of
             None \<Rightarrow> None
           | Some k \<Rightarrow>
               Some ((case word_at comBuffer (cPt + 1) of None \<Rightarrow> 0
                      | Some n \<Rightarrow> n div BYTES_PER_ELEMENT k) * BYTES_PER_ELEMENT k)))"
| "read_extent td reg comBuffer GLstring cPt =
     (case td of
        TextDecoder decode \<Rightarrow> word_at comBuffer cPt
      | NoTextDecoder lim \<Rightarrow>
          Some ((case word_at comBuffer cPt of None \<Rightarrow> 0 | Some n \<Rightarrow> n div 2) * 2))"
| "read_extent td reg comBuffer GLimage cPt =
     Some (case num_mul (num_mul (word_at comBuffer cPt) (word_at comBuffer (cPt + 1))) (Some 4) of
             None \<Rightarrow> 0 | Some n \<Rightarrow> n)"
| "read_extent td reg comBuffer (GLfloat fk) cPt = Some (float_bytes fk)"
| "read_extent td reg comBuffer ty cPt = map_option kind_bytes (type_kind reg ty)"


text \<open>
  The bytes of the elements of a typed array (\<^verbatim>\<open>arr.length * BYTES_PER_ELEMENT\<close>), what
  \<^verbatim>\<open>_writeArgValues\<close> leaves in \<^verbatim>\<open>bufferTypes\<close> for an entry of the layout pass (the bytes
  of an encoded string are replaced by their count), and the number the decoder must
  find for it in the command-code stream.
\<close>

definition elems_bytes :: "arr_kind \<Rightarrow> byte list \<Rightarrow> nat" where
  "elems_bytes k bs = (length bs div BYTES_PER_ELEMENT k) * BYTES_PER_ELEMENT k"

fun finalize :: "buffer_type \<Rightarrow> buffer_type" where
  "finalize (BBytes bs) = BNum (length bs)"
| "finalize (BNum n) = BNum n"

fun hdr_num :: "buffer_type \<Rightarrow> nat" where
  "hdr_num (BBytes bs) = length bs"
| "hdr_num (BNum n) = n"

definition words_at :: "32 word list \<Rightarrow> nat \<Rightarrow> nat list \<Rightarrow> bool" where
  "words_at com cPt ns = (\<forall>j < length ns. word_at com (cPt + j) = Some (ns ! j))"

text \<open>
  The invariant of the platform's \<^verbatim>\<open>ImageData\<close>: positive dimensions and four bytes for
  each pixel. Nothing is asked of the other arguments.
\<close>

fun valid_arg :: "gl_type \<Rightarrow> js_value \<Rightarrow> bool" where
  "valid_arg GLimage (JImage w h d) = (0 < w \<and> 0 < h \<and> length d = w * h * 4)"
| "valid_arg ty v = True"

fun valid_args :: "gl_type list \<Rightarrow> js_value list \<Rightarrow> bool" where
  "valid_args [] vs = True"
| "valid_args (ty # tys) vs = (valid_arg ty (arg0 vs) \<and> valid_args tys (tl vs))"

text \<open>
  The integer that the write pass hands to the accessor of a fixed-width argument (the
  \<^verbatim>\<open>GL_REF_KEY\<close> of a \<open>GLref\<close>, 1 or 0 for a \<open>GLboolean\<close>), and the value the decoder
  is expected to return for each argument, computed from the encoder's input.
\<close>

definition fixed_value :: "world \<Rightarrow> gl_type \<Rightarrow> js_value \<Rightarrow> error + int" where
  "fixed_value W ty v =
     (if ty = GLref then (case get_ref_key W v of Inl e \<Rightarrow> Inl e | Inr x \<Rightarrow> to_integral x)
      else if ty = GLboolean then Inr (if truthy v then 1 else 0)
      else to_integral v)"

fun decoded_arg :: "text_encoder \<Rightarrow> text_decoder \<Rightarrow> registry \<Rightarrow> world \<Rightarrow> jsstring \<Rightarrow> gl_type \<Rightarrow> js_value \<Rightarrow> js_value" where
  "decoded_arg te td reg W prefix GLarraybuffer v =
     (case v of JTyped k bs \<Rightarrow> JTyped k (take (elems_bytes k bs) bs) | _ \<Rightarrow> JUndefined)"
| "decoded_arg te td reg W prefix GLstring v =
     (case v of
        JStr s \<Rightarrow>
          (case (te, td) of
             (Some enc, TextDecoder dec) \<Rightarrow> JStr (dec (enc s))
           | (None, TextDecoder dec) \<Rightarrow> JStr (dec (le16_bytes s))
           | (Some enc, NoTextDecoder lim) \<Rightarrow>
               JStr (le16_units (take ((length (enc s) div 2) * 2) (enc s)))
           | (None, NoTextDecoder lim) \<Rightarrow> JStr s)
      | _ \<Rightarrow> JUndefined)"
| "decoded_arg te td reg W prefix GLimage v =
     (case v of JImage w h d \<Rightarrow> JImage w h (replicate (w * h * 4) 0) | _ \<Rightarrow> JUndefined)"
| "decoded_arg te td reg W prefix (GLfloat fk) v =
     (case to_number v of Inl e \<Rightarrow> JUndefined | Inr x \<Rightarrow> float_decode fk (float_encode fk x))"
| "decoded_arg te td reg W prefix ty v =
     (case (type_kind reg ty, fixed_value W ty v) of
        (Some k, Inr n) \<Rightarrow>
          (let x = be_value k (be_bytes (kind_bytes k) n) in
           if ty = GLboolean then JBool (x \<noteq> 0)
           else if ty = GLref \<or> ty = GLlocation then JStr (prefix @ number_to_string x)
           else JNum x)
      | _ \<Rightarrow> JUndefined)"

fun decoded_args :: "text_encoder \<Rightarrow> text_decoder \<Rightarrow> registry \<Rightarrow> world \<Rightarrow> jsstring \<Rightarrow> gl_type list \<Rightarrow> js_value list \<Rightarrow> js_value list" where
  "decoded_args te td reg W prefix [] vs = []"
| "decoded_args te td reg W prefix (ty # tys) vs =
     decoded_arg te td reg W prefix ty (arg0 vs) # decoded_args te td reg W prefix tys (tl vs)"


text \<open>
  What the Player's string reader needs of a string argument in order to return: a
  Player without \<^verbatim>\<open>TextDecoder\<close> reads the bytes of the Writer's two-byte scheme only (a
  \<^verbatim>\<open>TextEncoder\<close>'s bytes may start at an odd offset, where its \<^verbatim>\<open>Uint16Array\<close> cannot), and
  no more code units than the engine accepts as arguments of one call.
\<close>

fun decodable_arg :: "text_encoder \<Rightarrow> text_decoder \<Rightarrow> gl_type \<Rightarrow> js_value \<Rightarrow> bool" where
  "decodable_arg te (NoTextDecoder lim) GLstring v =
     (te = None \<and> (case v of JStr s \<Rightarrow> length s \<le> lim | _ \<Rightarrow> True))"
| "decodable_arg te td ty v = True"

fun decodable_args :: "text_encoder \<Rightarrow> text_decoder \<Rightarrow> gl_type list \<Rightarrow> js_value list \<Rightarrow> bool" where
  "decodable_args te td [] vs = True"
| "decodable_args te td (ty # tys) vs =
     (decodable_arg te td ty (arg0 vs) \<and> decodable_args te td tys (tl vs))"

text \<open>
  The byte widths that the loop of \<^verbatim>\<open>_getBufferTypes\<close> computes, argument by argument
  (their sum is its \<^verbatim>\<open>size\<close>), and the condition that every header number of the
  command fits the 32 bits of a command word.
\<close>

fun layout_widths :: "text_encoder \<Rightarrow> registry \<Rightarrow> gl_type list \<Rightarrow> js_value list \<Rightarrow> nat list" where
  "layout_widths te reg [] vs = []"
| "layout_widths te reg (ty # tys) vs =
     (case layoutArg te reg ty (arg0 vs) of Inl e \<Rightarrow> 0 | Inr (hdr, n) \<Rightarrow> n)
       # layout_widths te reg tys (tl vs)"

definition header_fits :: "text_encoder \<Rightarrow> registry \<Rightarrow> gl_type list \<Rightarrow> js_value list \<Rightarrow> bool" where
  "header_fits te reg tys vs =
     (case layoutArgs te reg tys vs of
        Inl e \<Rightarrow> True
      | Inr (hdrs, sz) \<Rightarrow> list_all (\<lambda>x. hdr_num x < 2 ^ 32) hdrs)"


section \<open>A UTF-8 decoder\<close>

text \<open>
  \<^verbatim>\<open>TextDecoder\<close> belongs to the platform and is a parameter of the Player. For the
  concrete evaluation of a Player that has one, this is the decoder of the Encoding
  standard: UTF-8 to UTF-16 code units, a leading byte order mark dropped, every
  ill-formed sequence replaced by U+FFFD.
\<close>

fun utf8_units :: "nat \<Rightarrow> jsstring" where
  "utf8_units cp =
     (if cp < 65536 then [word_of_nat cp]
      else [word_of_nat (55296 + (cp - 65536) div 1024), word_of_nat (56320 + (cp - 65536) mod 1024)])"

fun utf8_cont :: "nat \<Rightarrow> nat \<Rightarrow> nat \<Rightarrow> nat \<Rightarrow> nat list \<Rightarrow> nat \<Rightarrow> nat \<times> nat" where
  "utf8_cont 0 lo hi cp bs n = (cp, n)"
| "utf8_cont (Suc need) lo hi cp [] n = (65533, n)"
| "utf8_cont (Suc need) lo hi cp (b # bs) n =
     (if lo \<le> b \<and> b \<le> hi then utf8_cont need 128 191 (cp * 64 + (b - 128)) bs (Suc n)
      else (65533, n))"

definition utf8_step :: "nat \<Rightarrow> nat list \<Rightarrow> nat \<times> nat" where
  "utf8_step b bs =
     (if b < 128 then (b, 0)
      else if b < 194 \<or> 244 < b then (65533, 0)
      else if b < 224 then utf8_cont 1 128 191 (b - 192) bs 0
      else if b < 240 then
        utf8_cont 2 (if b = 224 then 160 else 128) (if b = 237 then 159 else 191) (b - 224) bs 0
      else utf8_cont 3 (if b = 240 then 144 else 128) (if b = 244 then 143 else 191) (b - 240) bs 0)"

fun utf8_decode_nat :: "nat list \<Rightarrow> jsstring" where
  "utf8_decode_nat [] = []"
| "utf8_decode_nat (b # bs) =
     (case utf8_step b bs of (cp, n) \<Rightarrow> utf8_units cp @ utf8_decode_nat (drop n bs))"

definition utf8_decode :: "byte list \<Rightarrow> jsstring" where
  "utf8_decode bs =
     (let ns = map unat bs
      in utf8_decode_nat (if take 3 ns = [239, 187, 191] then drop 3 ns else ns))"


section \<open>Properties\<close>

subsection \<open>Evaluation lemmas\<close>

lemma length_be_bytes [simp]: "length (be_bytes w n) = w"
  by (induction w) simp_all

lemma be_bytes_numeral [simp]:
  "be_bytes 1 n = [word_of_int n]"
  "be_bytes 2 n = [word_of_int (n div 256), word_of_int n]"
  "be_bytes 4 n = [word_of_int (n div 16777216), word_of_int (n div 65536),
                   word_of_int (n div 256), word_of_int n]"
  by (simp_all add: eval_nat_numeral)

lemma bitlen_numeral [simp]:
  "bitlen 0 = 0" "bitlen (Suc 0) = 1"
  "bitlen (numeral (Num.Bit0 n)) = Suc (bitlen (numeral n))"
  "bitlen (numeral (Num.Bit1 n)) = Suc (bitlen (numeral n))"
  by (subst bitlen.simps, simp)+

lemmas float_defs =
  float_encode_def float_decode_def ieee_encode_def ieee_decode_def round_shift_def
  number_value_def Let_def

lemmas writer_defs =
  GLBufferWriter_def GLBufferWriter_reset_def GLBufferWriter_clearCommands_def

lemmas encode_defs =
  addCommand_def saveCommand_def getBufferTypes_def returnSize_def type_bytesCount_def
  writeArgValues_def writeArg_def writeReturn_def writeCommand_def writeBuffer_def
  getTypeOfArrayByNum_def bt_num_def tagRefs_def last_arg_def UID_def dv_set_def write_at_def
  Let_def

lemmas demo_defs = demo_registry_def demo_table_def fresh_session_def initial_world_def

lemma prior_session_eval:
  "prior_session = (\<lparr>uid = 2, refKeys = [5 \<mapsto> 1], console = []\<rparr>,
      \<lparr>w_debug = False, w_refPrefix = None, w_commands = [BNum 1],
       w_valueBuffers = [[0, 0, 0, 1]], w_refMap = [1 \<mapsto> JObj 5]\<rparr>)"
  by (simp add: prior_session_def encode_defs demo_defs writer_defs)

lemma readCommand_known:
  assumes "cPt < length com" and "getCommandTypesByNum reg (unat (com ! cPt)) = Some ct"
  shows "readCommand td reg cPt com buf prefix =
     (case readArgs td reg com buf prefix (argTypes ct) (cPt + 1) (Some 0) of
        Inl e \<Rightarrow> Inl e
      | Inr (args, cPt', vPt) \<Rightarrow>
          (case readReturn reg buf prefix (returnType ct) vPt of
             Inl e \<Rightarrow> Inl e
           | Inr ref \<Rightarrow>
               Inr (cPt', \<lparr>c_name = name ct, c_types = argTypes ct, c_args = args, c_ref = ref\<rparr>)))"
  using assms by (simp add: readCommand_def word_at_def)

lemma decodable_args_TextDecoder [simp]: "decodable_args te (TextDecoder dec) tys vs"
  by (induction tys arbitrary: vs) simp_all

subsection \<open>Unknown commands and the argument count\<close>

text \<open>
  C8. Calling \<^verbatim>\<open>addCommand\<close> with a name that has no descriptor in the registry is not
  an error: the call returns, and the Writer (its command list, its value buffers and
  its reference table) is unchanged; so are the id counter and the ids tagged on
  objects. The only trace is the console line, and only with the \<^verbatim>\<open>debug\<close> option.
\<close>

theorem addCommand_unknown_name:
  assumes "getCommandTypes reg nm args = None"
  shows "\<exists>W'. addCommand te reg nm args (W, wr) = Done (W', wr)
           \<and> uid W' = uid W \<and> refKeys W' = refKeys W \<and> (\<not> w_debug wr \<longrightarrow> W' = W)"
  using assms by (simp add: addCommand_def)

theorem addCommand_unknown_name_witness:
  "getCommandTypes demo_registry ''getError'' [] = None
   \<and> addCommand None demo_registry ''getError'' [] fresh_session = Done fresh_session"
proof -
  have h: "getCommandTypes demo_registry ''getError'' [] = None"
    by (simp add: demo_defs)
  have "\<not> w_debug (GLBufferWriter False None)"
    by (simp add: writer_defs)
  with addCommand_unknown_name [OF h, of None initial_world "GLBufferWriter False None"] h
  show ?thesis by (auto simp: fresh_session_def)
qed

lemma saveCommand_Done:
  assumes "saveCommand te reg ct nm args (W, wr) = Done (W', wr')"
  shows "\<exists>bts buffer. w_commands wr' = w_commands wr @ BNum (num ct) # bts
           \<and> w_valueBuffers wr' = w_valueBuffers wr @ [buffer]"
  using assms
  by (auto simp: saveCommand_def writeCommand_def Let_def
           split: if_splits outcome.splits sum.splits prod.splits)

lemma saveCommand_Throws:
  assumes "saveCommand te reg ct nm args (W, wr) = Throws e (W', wr')"
  shows "w_commands wr' = w_commands wr \<and> w_valueBuffers wr' = w_valueBuffers wr"
  using assms
  by (auto simp: saveCommand_def writeCommand_def Let_def
           split: if_splits outcome.splits sum.splits prod.splits)

text \<open>
  C7, as the code has it. For a known command name: when the number of arguments is not
  the number of argument types, plus one when a return type is declared,
  \<^verbatim>\<open>addCommand\<close> throws its \<^verbatim>\<open>Error\<close> (\<^verbatim>\<open>wrong argument number\<close>) at once and leaves every
  state as it was. When the counts match, no such error is thrown and the call is
  \<^verbatim>\<open>_saveCommand\<close>: the command is committed (its code word is appended, with its header
  words, and one value buffer is pushed) when the encoding of the arguments completes,
  and neither list changes when the encoding throws.
\<close>

theorem addCommand_argument_count:
  assumes "getCommandTypes reg nm args = Some ct"
  shows "(length args \<noteq> length (argTypes ct) + (if returnType ct \<noteq> None then 1 else 0)
            \<longrightarrow> addCommand te reg nm args (W, wr)
                = Throws (Error (''[addCommand] wrong argument number '' @ nm)) (W, wr))
       \<and> (length args = length (argTypes ct) + (if returnType ct \<noteq> None then 1 else 0)
            \<longrightarrow> addCommand te reg nm args (W, wr) = saveCommand te reg ct nm args (W, wr)
              \<and> (\<forall>W' wr'. addCommand te reg nm args (W, wr) = Done (W', wr')
                    \<longrightarrow> (\<exists>bts buffer. w_commands wr' = w_commands wr @ BNum (num ct) # bts
                           \<and> w_valueBuffers wr' = w_valueBuffers wr @ [buffer]))
              \<and> (\<forall>e W' wr'. addCommand te reg nm args (W, wr) = Throws e (W', wr')
                    \<longrightarrow> w_commands wr' = w_commands wr \<and> w_valueBuffers wr' = w_valueBuffers wr))"
proof (intro conjI impI)
  assume "length args \<noteq> length (argTypes ct) + (if returnType ct \<noteq> None then 1 else 0)"
  with assms show "addCommand te reg nm args (W, wr)
                = Throws (Error (''[addCommand] wrong argument number '' @ nm)) (W, wr)"
    by (simp add: addCommand_def Let_def)
next
  assume eq: "length args = length (argTypes ct) + (if returnType ct \<noteq> None then 1 else 0)"
  with assms show a: "addCommand te reg nm args (W, wr) = saveCommand te reg ct nm args (W, wr)"
    by (simp add: addCommand_def Let_def)
  show "\<forall>W' wr'. addCommand te reg nm args (W, wr) = Done (W', wr')
                    \<longrightarrow> (\<exists>bts buffer. w_commands wr' = w_commands wr @ BNum (num ct) # bts
                           \<and> w_valueBuffers wr' = w_valueBuffers wr @ [buffer])"
    unfolding a using saveCommand_Done by blast
  show "\<forall>e W' wr'. addCommand te reg nm args (W, wr) = Throws e (W', wr')
                    \<longrightarrow> w_commands wr' = w_commands wr \<and> w_valueBuffers wr' = w_valueBuffers wr"
    unfolding a using saveCommand_Throws by blast
qed

theorem addCommand_argument_count_witness:
  "addCommand None demo_registry ''flush'' [JNum 1] fresh_session
     = Throws (Error ''[addCommand] wrong argument number flush'') fresh_session
   \<and> d_commands (getBuffer (snd (outcome_state
         (addCommand None demo_registry ''flush'' [] fresh_session)))) = [3]"
proof -
  let ?ct = "\<lparr>num = 3, name = ''flush'', argTypes = [], returnType = None\<rparr>"
  have h1: "getCommandTypes demo_registry ''flush'' [JNum 1] = Some ?ct"
    by (simp add: demo_defs)
  have h2: "getCommandTypes demo_registry ''flush'' [] = Some ?ct"
    by (simp add: demo_defs)
  have a: "addCommand None demo_registry ''flush'' [JNum 1] (initial_world, GLBufferWriter False None)
     = Throws (Error ''[addCommand] wrong argument number flush'') (initial_world, GLBufferWriter False None)"
    using addCommand_argument_count [OF h1, of None initial_world "GLBufferWriter False None"]
    by simp
  have b: "addCommand None demo_registry ''flush'' [] (initial_world, GLBufferWriter False None)
     = saveCommand None demo_registry ?ct ''flush'' [] (initial_world, GLBufferWriter False None)"
    using addCommand_argument_count [OF h2, of None initial_world "GLBufferWriter False None"]
    by simp
  have c: "d_commands (getBuffer (snd (outcome_state
         (saveCommand None demo_registry ?ct ''flush'' [] (initial_world, GLBufferWriter False None))))) = [3]"
    by (simp add: saveCommand_def demo_registry_def getBufferTypes_def returnSize_def
          writeArgValues_def writeCommand_def getBuffer_def writer_defs)
  from a b c show ?thesis by (simp add: fresh_session_def)
qed

text \<open>
  C7 as stated fails: \<^verbatim>\<open>addCommand('bindBuffer', 34962, null)\<close> has the two arguments
  the descriptor asks for, and is not committed: reading \<^verbatim>\<open>GL_REF_KEY\<close> of \<^verbatim>\<open>null\<close> throws
  a \<^verbatim>\<open>TypeError\<close> in the write pass.
\<close>

theorem addCommand_count_match_not_committed:
  "getCommandTypes demo_registry ''bindBuffer'' [JNum 34962, JNull]
     = Some \<lparr>num = 2, name = ''bindBuffer'', argTypes = [GLscalar Uint32, GLref], returnType = None\<rparr>
   \<and> addCommand None demo_registry ''bindBuffer'' [JNum 34962, JNull] fresh_session
       = Throws TypeError fresh_session"
  by (simp add: encode_defs demo_defs)

subsection \<open>The command without arguments\<close>

text \<open>
  C9. Encoding a command whose descriptor declares no arguments and no return type (and
  which the registry does not list as ref-creating) appends exactly one word, the
  command code, to the command-code stream, and pushes a value buffer of zero bytes.
\<close>

theorem zero_argument_command:
  assumes "getCommandTypes reg nm [] = Some ct"
    and "argTypes ct = []" and "returnType ct = None" and "\<not> GLrefCreators reg nm"
  shows "\<exists>wr'. addCommand te reg nm [] (W, wr) = Done (W, wr')
           \<and> d_commands (getBuffer wr') = d_commands (getBuffer wr) @ [word_of_nat (num ct)]
           \<and> d_values (getBuffer wr') = d_values (getBuffer wr) @ [[]]"
  using assms
  by (simp add: addCommand_def saveCommand_def getBufferTypes_def returnSize_def
        writeArgValues_def writeCommand_def getBuffer_def)

theorem zero_argument_command_witness:
  "\<exists>wr'. addCommand None demo_registry ''flush'' [] fresh_session = Done (initial_world, wr')
     \<and> d_commands (getBuffer wr') = [3] \<and> d_values (getBuffer wr') = [[]]"
proof -
  let ?ct = "\<lparr>num = 3, name = ''flush'', argTypes = [], returnType = None\<rparr>"
  have h: "getCommandTypes demo_registry ''flush'' [] = Some ?ct"
    by (simp add: demo_defs)
  have n: "\<not> GLrefCreators demo_registry ''flush''"
    by (simp add: demo_registry_def)
  show ?thesis
    using zero_argument_command [OF h _ _ n, of None initial_world "GLBufferWriter False None"]
    by (simp add: fresh_session_def getBuffer_def writer_defs)
qed

subsection \<open>\<^verbatim>\<open>reset\<close>\<close>

text \<open>
  C6, as the code has it. After \<^verbatim>\<open>reset()\<close>, \<^verbatim>\<open>getCommands()\<close> is empty, and the fields of a
  reset Player or Writer are those of a freshly constructed instance (for the Writer one
  constructed with the same options), so that every later operation run from the same
  process state gives the same result on both. The process state is not reset: the id
  counter and the ids tagged on objects survive the Writer's \<^verbatim>\<open>reset()\<close>.
\<close>

theorem reset_is_fresh_instance:
  "getCommands (GLBufferPlayer_reset p) = []
   \<and> GLBufferPlayer_reset p = GLBufferPlayer
   \<and> GLBufferWriter_reset wr = GLBufferWriter (w_debug wr) (w_refPrefix wr)
   \<and> addBuffer td reg data (GLBufferPlayer_reset p) = addBuffer td reg data GLBufferPlayer
   \<and> playback gl step (GLBufferPlayer_reset p, g) = playback gl step (GLBufferPlayer, g)
   \<and> addCommand te reg nm args (W, GLBufferWriter_reset wr)
       = addCommand te reg nm args (W, GLBufferWriter (w_debug wr) (w_refPrefix wr))"
proof -
  have a: "GLBufferPlayer_reset p = GLBufferPlayer"
    by (simp add: GLBufferPlayer_reset_def GLBufferPlayer_clearCommands_def GLBufferPlayer_def)
  have b: "GLBufferWriter_reset wr = GLBufferWriter (w_debug wr) (w_refPrefix wr)"
    by (simp add: writer_defs)
  show ?thesis
    unfolding a b [symmetric] by (simp add: getCommands_def GLBufferPlayer_def)
qed

theorem reset_is_fresh_instance_witness:
  "getCommands (GLBufferPlayer_reset GLBufferPlayer) = []
   \<and> d_commands (getBuffer (GLBufferWriter_reset (snd prior_session))) = []
   \<and> d_values (getBuffer (GLBufferWriter_reset (snd prior_session))) = []"
proof -
  note t = reset_is_fresh_instance [of GLBufferPlayer "snd prior_session" "NoTextDecoder 65536"
      demo_registry
      "getBuffer (snd prior_session)" "\<lambda>nm. None" None "()" None "''flush''" "[]" initial_world]
  have a: "getCommands (GLBufferPlayer_reset GLBufferPlayer) = []"
    using t by blast
  have b: "GLBufferWriter_reset (snd prior_session)
             = GLBufferWriter (w_debug (snd prior_session)) (w_refPrefix (snd prior_session))"
    using t by blast
  show ?thesis
    unfolding b using a by (simp add: getBuffer_def writer_defs)
qed

text \<open>
  C6 as stated fails for the Writer: ids of the session before \<^verbatim>\<open>reset()\<close> do reach the
  session after it. The object tagged with id 1 before the reset is serialized as 1
  afterwards, though the reset Writer's reference table is empty; and the next object
  created gets id 2, where a Writer of a fresh process gives id 1.
\<close>

theorem reset_leaks_ids:
  "d_values (getBuffer (snd (outcome_state
       (addCommand None demo_registry ''bindBuffer'' [JNum 34962, JObj 5]
          (fst prior_session, GLBufferWriter_reset (snd prior_session))))))
     = [[0, 0, 136, 146, 0, 0, 0, 1]]
   \<and> w_refMap (GLBufferWriter_reset (snd prior_session)) = Map.empty
   \<and> d_values (getBuffer (snd (outcome_state
       (addCommand None demo_registry ''createBuffer'' [JObj 7]
          (fst prior_session, GLBufferWriter_reset (snd prior_session)))))) = [[0, 0, 0, 2]]
   \<and> d_values (getBuffer (snd (outcome_state
       (addCommand None demo_registry ''createBuffer'' [JObj 7] fresh_session)))) = [[0, 0, 0, 1]]"
  unfolding prior_session_eval
  by (simp add: encode_defs demo_defs getBuffer_def writer_defs)

subsection \<open>\<^verbatim>\<open>playback\<close> and the command list\<close>

lemma playback_loop_Cons: "playback_loop gl step (c # cs) st = Throws TypeError st"
  by (simp add: command_property_def)

lemma playback_nonempty:
  "getCommands p \<noteq> [] \<Longrightarrow> playback gl step (p, g) = Throws TypeError (p, g)"
proof -
  assume "getCommands p \<noteq> []"
  then obtain c cs where "getCommands p = c # cs"
    by (cases "getCommands p") auto
  then have "playback_loop gl step (getCommands (fst (p, g))) (p_refMap (fst (p, g)), snd (p, g))
               = Throws TypeError (p_refMap p, g)"
    by (simp only: fst_conv snd_conv playback_loop_Cons)
  then show ?thesis
    by (simp add: playback_def)
qed

lemma playback_frame:
  "getCommands (fst (outcome_state (playback gl step (p, g)))) = getCommands p
   \<and> getCommands (GLBufferPlayer_clearCommands p) = []
   \<and> getCommands (GLBufferPlayer_reset p) = []"
  by (simp add: playback_def getCommands_def GLBufferPlayer_clearCommands_def
        GLBufferPlayer_reset_def split: outcome.splits prod.splits)

text \<open>
  C10, at a Player that holds one record. \<^verbatim>\<open>addCommand('flush')\<close> gives the wire data with
  the command word 3 and one empty value buffer, and \<^verbatim>\<open>addBuffer\<close> decodes it to the record
  of \<^verbatim>\<open>flush\<close>. \<^verbatim>\<open>playback\<close> on a target whose every method counts its calls then throws a
  \<^verbatim>\<open>TypeError\<close> at that record, before the target is called: the counter is still 0
  and the reference table is unchanged, after the first call and after a second one.
  The command list is the same after each call; no record is executed by either.
\<close>

theorem playback_executes_nothing:
  "getBuffer (snd (outcome_state (addCommand None demo_registry ''flush'' [] fresh_session)))
     = \<lparr>d_refPrefix = [], d_commands = [3], d_values = [[]]\<rparr>
   \<and> addBuffer (NoTextDecoder 65536) demo_registry
       \<lparr>d_refPrefix = [], d_commands = [3], d_values = [[]]\<rparr> GLBufferPlayer
     = Done \<lparr>p_commands = [\<lparr>c_name = ''flush'', c_types = [], c_args = [], c_ref = Ref0\<rparr>],
              p_refMap = Map.empty\<rparr>
   \<and> playback (\<lambda>nm. Some (\<lambda>args g. (Inr JUndefined, Suc g))) None
       (\<lparr>p_commands = [\<lparr>c_name = ''flush'', c_types = [], c_args = [], c_ref = Ref0\<rparr>],
         p_refMap = Map.empty\<rparr>, 0 :: nat)
     = Throws TypeError
         (\<lparr>p_commands = [\<lparr>c_name = ''flush'', c_types = [], c_args = [], c_ref = Ref0\<rparr>],
           p_refMap = Map.empty\<rparr>, 0)
   \<and> playback (\<lambda>nm. Some (\<lambda>args g. (Inr JUndefined, Suc g))) None
       (outcome_state
          (playback (\<lambda>nm. Some (\<lambda>args g. (Inr JUndefined, Suc g))) None
             (\<lparr>p_commands = [\<lparr>c_name = ''flush'', c_types = [], c_args = [], c_ref = Ref0\<rparr>],
               p_refMap = Map.empty\<rparr>, 0 :: nat)))
     = Throws TypeError
         (\<lparr>p_commands = [\<lparr>c_name = ''flush'', c_types = [], c_args = [], c_ref = Ref0\<rparr>],
           p_refMap = Map.empty\<rparr>, 0)"
proof -
  have a: "addCommand None demo_registry ''flush'' [] fresh_session
             = Done (initial_world,
                 \<lparr>w_debug = False, w_refPrefix = None, w_commands = [BNum 3],
                  w_valueBuffers = [[]], w_refMap = Map.empty\<rparr>)"
    by (simp add: encode_defs demo_defs writer_defs)
  have b: "getCommandTypesByNum demo_registry (unat ([3 :: 32 word] ! 0))
             = Some \<lparr>num = 3, name = ''flush'', argTypes = [], returnType = None\<rparr>"
    by (simp add: demo_defs)
  have l: "(0 :: nat) < length [3 :: 32 word]" by simp
  have c: "addBuffer (NoTextDecoder 65536) demo_registry
       \<lparr>d_refPrefix = [], d_commands = [3], d_values = [[]]\<rparr> GLBufferPlayer
     = Done \<lparr>p_commands = [\<lparr>c_name = ''flush'', c_types = [], c_args = [], c_ref = Ref0\<rparr>],
              p_refMap = Map.empty\<rparr>"
    by (simp add: addBuffer_def parse_def readCommand_known [OF l b] readReturn_def
          GLBufferPlayer_def)
  have d: "playback (\<lambda>nm. Some (\<lambda>args g. (Inr JUndefined, Suc g))) None
       (\<lparr>p_commands = [\<lparr>c_name = ''flush'', c_types = [], c_args = [], c_ref = Ref0\<rparr>],
         p_refMap = Map.empty\<rparr>, 0 :: nat)
     = Throws TypeError
         (\<lparr>p_commands = [\<lparr>c_name = ''flush'', c_types = [], c_args = [], c_ref = Ref0\<rparr>],
           p_refMap = Map.empty\<rparr>, 0)"
    by (simp add: playback_def getCommands_def command_property_def)
  show ?thesis
    unfolding a c d by (simp add: getBuffer_def d)
qed

subsection \<open>Reads beyond the value buffer\<close>

lemma readArg_exceeds:
  assumes "read_extent td reg com ty cPt = Some n" and "length buf < to_index vPt + n"
  shows "readArg td reg com buf prefix ty cPt vPt = Inl RangeError"
  using assms
  by (cases ty)
     (auto simp: readArray_def readString_def dv_get_def dv_getFloat_def Let_def
           split: option.splits text_decoder.splits if_splits)

lemma readArgs_append:
  "readArgs td reg com buf prefix (xs @ ys) cPt vPt =
     (case readArgs td reg com buf prefix xs cPt vPt of
        Inl e \<Rightarrow> Inl e
      | Inr (vs, c, v) \<Rightarrow>
          (case readArgs td reg com buf prefix ys c v of
             Inl e \<Rightarrow> Inl e
           | Inr (ws, c', v') \<Rightarrow> Inr (vs @ ws, c', v')))"
  by (induction xs arbitrary: cPt vPt) (auto split: sum.splits prod.splits)

lemma readArgs_exceeds:
  assumes "i < length tys"
    and "readArgs td reg com buf prefix (take i tys) cPt vPt = Inr (vs, c, v)"
    and "read_extent td reg com (tys ! i) c = Some n"
    and "length buf < to_index v + n"
  shows "readArgs td reg com buf prefix tys cPt vPt = Inl RangeError"
proof -
  have "tys = take i tys @ (tys ! i) # drop (Suc i) tys"
    using assms(1) by (simp add: id_take_nth_drop)
  then have "readArgs td reg com buf prefix tys cPt vPt
      = readArgs td reg com buf prefix (take i tys @ (tys ! i) # drop (Suc i) tys) cPt vPt"
    by simp
  also have "\<dots> = Inl RangeError"
    using assms(2) readArg_exceeds [OF assms(3,4)]
    by (simp add: readArgs_append)
  finally show ?thesis .
qed

lemma readRefs_partial:
  assumes "vPt < length buf" and "(length buf - vPt) mod kind_bytes k \<noteq> 0"
  shows "readRefs buf prefix k vPt = Inl RangeError"
  using assms
proof (induction buf prefix k vPt rule: readRefs.induct)
  case (1 buf prefix k vPt)
  show ?case
  proof (cases "vPt + kind_bytes k \<le> length buf")
    case False
    with "1.prems" show ?thesis
      by (subst readRefs.simps) (simp add: dv_get_def)
  next
    case True
    have ne: "vPt + kind_bytes k \<noteq> length buf"
    proof
      assume "vPt + kind_bytes k = length buf"
      then have "length buf - vPt = kind_bytes k" by simp
      with "1.prems"(2) show False by simp
    qed
    with True have lt: "vPt + kind_bytes k < length buf" by simp
    have m: "(length buf - (vPt + kind_bytes k)) mod kind_bytes k \<noteq> 0"
    proof -
      have "kind_bytes k \<le> length buf - vPt" using True by simp
      then have "(length buf - vPt) mod kind_bytes k = (length buf - vPt - kind_bytes k) mod kind_bytes k"
        by (rule le_mod_geq)
      then show ?thesis using "1.prems"(2) by (simp add: diff_diff_left)
    qed
    obtain x where g: "dv_get k vPt buf = Inr x"
      using True by (auto simp: dv_get_def)
    have "readRefs buf prefix k (vPt + kind_bytes k) = Inl RangeError"
      using "1.IH" [OF "1.prems"(1) g lt m] .
    then show ?thesis
      using "1.prems"(1) g by (subst readRefs.simps) simp
  qed
qed


text \<open>
  C5. While \<^verbatim>\<open>_parse\<close> decodes the command at \<open>cPt\<close>: if the read of an argument would
  exceed the length of the value buffer (the decoder has reached position \<open>i\<close> with
  offset \<open>v\<close>, and the bytes its read touches end after the buffer), or the read of the
  return slot would (a single id that does not fit, or a list whose last id is cut),
  then \<^verbatim>\<open>_readCommand\<close> fails with the \<^verbatim>\<open>RangeError\<close> of the accessor or view constructor,
  which checks the range before it touches the buffer; the error leaves \<^verbatim>\<open>_parse\<close> with
  no record pushed for the command. (\<^verbatim>\<open>RangeError\<close> is what the spec names
  TruncatedBufferError.)
\<close>

theorem truncated_value_buffer:
  assumes "cPt < length com" and "getCommandTypesByNum reg (unat (com ! cPt)) = Some ct"
  shows "(\<forall>i vs c v n.
            i < length (argTypes ct)
            \<and> readArgs td reg com buf prefix (take i (argTypes ct)) (cPt + 1) (Some 0) = Inr (vs, c, v)
            \<and> read_extent td reg com (argTypes ct ! i) c = Some n
            \<and> length buf < to_index v + n
            \<longrightarrow> readCommand td reg cPt com buf prefix = Inl RangeError)
       \<and> (\<forall>args c v rt k.
            readArgs td reg com buf prefix (argTypes ct) (cPt + 1) (Some 0) = Inr (args, c, v)
            \<and> returnType ct = Some (RetSingle rt) \<and> type_kind reg rt = Some k
            \<and> length buf < to_index v + kind_bytes k
            \<longrightarrow> readCommand td reg cPt com buf prefix = Inl RangeError)
       \<and> (\<forall>args c vPt rt k.
            readArgs td reg com buf prefix (argTypes ct) (cPt + 1) (Some 0) = Inr (args, c, Some vPt)
            \<and> returnType ct = Some (RetList rt) \<and> type_kind reg rt = Some k
            \<and> vPt < length buf \<and> (length buf - vPt) mod kind_bytes k \<noteq> 0
            \<longrightarrow> readCommand td reg cPt com buf prefix = Inl RangeError)
       \<and> (\<forall>e. readCommand td reg cPt com buf prefix = Inl e
            \<longrightarrow> parse_loop td reg com prefix cPt (buf # bufs) p = Throws e p)"
proof (intro conjI allI impI)
  fix i vs c v n
  assume "i < length (argTypes ct)
            \<and> readArgs td reg com buf prefix (take i (argTypes ct)) (cPt + 1) (Some 0) = Inr (vs, c, v)
            \<and> read_extent td reg com (argTypes ct ! i) c = Some n
            \<and> length buf < to_index v + n"
  then have "readArgs td reg com buf prefix (argTypes ct) (cPt + 1) (Some 0) = Inl RangeError"
    using readArgs_exceeds by blast
  then show "readCommand td reg cPt com buf prefix = Inl RangeError"
    by (simp add: readCommand_known [OF assms])
next
  fix args c v rt k
  assume "readArgs td reg com buf prefix (argTypes ct) (cPt + 1) (Some 0) = Inr (args, c, v)
            \<and> returnType ct = Some (RetSingle rt) \<and> type_kind reg rt = Some k
            \<and> length buf < to_index v + kind_bytes k"
  then show "readCommand td reg cPt com buf prefix = Inl RangeError"
    by (simp add: readCommand_known [OF assms] readReturn_def dv_get_def)
next
  fix args c vPt rt k
  assume "readArgs td reg com buf prefix (argTypes ct) (cPt + 1) (Some 0) = Inr (args, c, Some vPt)
            \<and> returnType ct = Some (RetList rt) \<and> type_kind reg rt = Some k
            \<and> vPt < length buf \<and> (length buf - vPt) mod kind_bytes k \<noteq> 0"
  then show "readCommand td reg cPt com buf prefix = Inl RangeError"
    by (simp add: readCommand_known [OF assms] readReturn_def readRefs_partial)
next
  fix e
  assume "readCommand td reg cPt com buf prefix = Inl e"
  then show "parse_loop td reg com prefix cPt (buf # bufs) p = Throws e p"
    using assms(1) by simp
qed

theorem truncated_value_buffer_witness:
  "addBuffer (NoTextDecoder 65536) demo_registry
     \<lparr>d_refPrefix = [], d_commands = [2], d_values = [[0, 0, 136, 146, 0, 0]]\<rparr> GLBufferPlayer
   = Throws RangeError GLBufferPlayer"
proof -
  let ?ct = "\<lparr>num = 2, name = ''bindBuffer'', argTypes = [GLscalar Uint32, GLref], returnType = None\<rparr>"
  let ?buf = "[0, 0, 136, 146, 0, 0] :: byte list"
  have h1: "(0::nat) < length [2 :: 32 word]" by simp
  have h2: "getCommandTypesByNum demo_registry (unat ([2 :: 32 word] ! 0)) = Some ?ct"
    by (simp add: demo_registry_def demo_table_def)
  note t = truncated_value_buffer [OF h1 h2, of "NoTextDecoder 65536" ?buf "[]" "[]" GLBufferPlayer]
  have a: "readArgs (NoTextDecoder 65536) demo_registry [2] ?buf [] (take 1 (argTypes ?ct)) (0 + 1) (Some 0)
             = Inr ([JNum 34962], 1, Some 4)"
    by (simp add: dv_get_def bytes_at_def be_value_def)
  have b: "read_extent (NoTextDecoder 65536) demo_registry [2] (argTypes ?ct ! 1) 1 = Some 4"
    by (simp add: demo_registry_def)
  have "readCommand (NoTextDecoder 65536) demo_registry 0 [2] ?buf [] = Inl RangeError"
    using t a b by force
  then have "parse_loop (NoTextDecoder 65536) demo_registry [2] [] 0 [?buf] GLBufferPlayer = Throws RangeError GLBufferPlayer"
    using t by blast
  then show ?thesis
    by (simp add: addBuffer_def parse_def)
qed


subsection \<open>The write pass and the decoder, argument by argument\<close>

lemma length_write_at [simp]:
  "p + length bs \<le> length buf \<Longrightarrow> length (write_at buf p bs) = length buf"
  by (simp add: write_at_def)

lemma take_write_at [simp]:
  "p \<le> length buf \<Longrightarrow> take p (write_at buf p bs) = take p buf"
  by (simp add: write_at_def)

lemma drop_write_at [simp]:
  "length bs = n \<Longrightarrow> p + n \<le> length buf \<Longrightarrow> drop (p + n) (write_at buf p bs) = drop (p + n) buf"
  by (auto simp: write_at_def)

lemma bytes_at_write_at [simp]:
  "length bs = n \<Longrightarrow> p \<le> length buf \<Longrightarrow> bytes_at (write_at buf p bs) p n = bs"
  by (auto simp: write_at_def bytes_at_def)

lemma length_le16_bytes [simp]: "length (le16_bytes s) = length s * 2"
  by (induction s) (simp_all add: le16_bytes_def)

lemma word_cat_bytes: "word_cat (ucast (drop_bit 8 c) :: 8 word) (ucast c :: 8 word) = (c :: 16 word)"
  by (rule bit_word_eqI) (auto simp: bit_simps)

lemma le16_roundtrip [simp]: "le16_units (le16_bytes s) = s"
  by (induction s) (simp_all add: le16_bytes_def word_cat_bytes)

lemma BYTES_PER_ELEMENT_pos [simp]: "0 < BYTES_PER_ELEMENT k"
  by (cases k) simp_all

lemma getTypeOfArrayByNum_arr_num [simp]: "getTypeOfArrayByNum (arr_num k) = Some k"
  by (cases k) (simp_all add: getTypeOfArrayByNum_def)

lemma arr_num_word [simp]: "unat (word_of_nat (arr_num k) :: 32 word) = arr_num k"
  by (cases k) simp_all

lemma elems_bytes_le: "elems_bytes k bs \<le> length bs"
  by (simp add: elems_bytes_def)

lemma writeArg_arraybuffer:
  "writeArg te reg W GLarraybuffer (JTyped k bs)
      (buf, p, length pre, pre @ BNum (arr_num k) # BNum (elems_bytes k bs) # post)
   = (if p mod BYTES_PER_ELEMENT k \<noteq> 0 \<or> length buf < p + elems_bytes k bs then Inl RangeError
      else Inr (write_at buf p (take (elems_bytes k bs) bs), p + elems_bytes k bs, length pre + 2,
                pre @ BNum (arr_num k) # BNum (elems_bytes k bs) # post))"
  by (simp add: writeArg_def bt_num_def nth_append writeBuffer_def elems_bytes_def)

lemma writeArg_string_encoder:
  "writeArg (Some enc) reg W GLstring (JStr s) (buf, p, length pre, pre @ BBytes (enc s) # post)
   = (if p + length (enc s) \<le> length buf
      then Inr (write_at buf p (enc s), p + length (enc s), length pre + 1,
                pre @ BNum (length (enc s)) # post)
      else Inl RangeError)"
  by (simp add: writeArg_def)

lemma writeArg_string_fallback:
  "writeArg None reg W GLstring (JStr s) (buf, p, length pre, pre @ BNum (length s * 2) # post)
   = (if p mod 2 \<noteq> 0 \<or> length buf < p + length s * 2 then Inl RangeError
      else Inr (write_at buf p (le16_bytes s), p + length s * 2, length pre + 1,
                pre @ BNum (length s * 2) # post))"
  by (simp add: writeArg_def bt_num_def writeBuffer_def getTypeOfArrayByNum_def)

lemma writeArg_image:
  "writeArg te reg W GLimage (JImage w h d) (buf, p, length pre, pre @ BNum w # BNum h # post)
   = (if length buf < p + w * h * 4 then Inl RangeError
      else Inr (buf, p + w * h * 4, length pre + 2, pre @ BNum w # BNum h # post))"
  by (simp add: writeArg_def bt_num_def nth_append writeBuffer_def getTypeOfArrayByNum_def)


lemma writeArg_fixed:
  assumes "type_kind reg ty = Some k"
  shows "writeArg te reg W ty v (buf, p, bp, bts) =
     (case fixed_value W ty v of
        Inl e \<Rightarrow> Inl e
      | Inr n \<Rightarrow>
          if p + kind_bytes k \<le> length buf
          then Inr (write_at buf p (be_bytes (kind_bytes k) n), p + kind_bytes k, bp, bts)
          else Inl RangeError)"
  using assms
  by (cases ty) (auto simp: writeArg_def dv_set_def fixed_value_def split: sum.splits)

lemma readArg_arraybuffer:
  assumes "word_at com cPt = Some (arr_num k)" and "word_at com (cPt + 1) = Some n"
  shows "readArg td reg com B prefix GLarraybuffer cPt (Some p) =
     (if p mod BYTES_PER_ELEMENT k \<noteq> 0
         \<or> length B < p + (n div BYTES_PER_ELEMENT k) * BYTES_PER_ELEMENT k
      then Inl RangeError
      else Inr (JTyped k (bytes_at B p ((n div BYTES_PER_ELEMENT k) * BYTES_PER_ELEMENT k)),
                Some n, cPt + 2))"
  using assms by (simp add: readArray_def)

lemma readArg_string_decoder:
  assumes "word_at com cPt = Some n"
  shows "readArg (TextDecoder dec) reg com B prefix GLstring cPt (Some p) =
     (if length B < p + n then Inl RangeError
      else Inr (JStr (dec (bytes_at B p n)), Some n, cPt + 1))"
  using assms by (simp add: readString_def)

lemma readArg_string_fallback:
  assumes "word_at com cPt = Some n"
  shows "readArg (NoTextDecoder lim) reg com B prefix GLstring cPt (Some p) =
     (if p mod 2 \<noteq> 0 \<or> length B < p + (n div 2) * 2 then Inl RangeError
      else if lim < n div 2 then Inl RangeError
      else Inr (JStr (le16_units (bytes_at B p ((n div 2) * 2))), Some n, cPt + 1))"
  using assms by (simp add: readString_def)

lemma length_bytes_at [simp]: "p + n \<le> length B \<Longrightarrow> length (bytes_at B p n) = n"
  by (simp add: bytes_at_def)

lemma readArg_image:
  assumes "word_at com cPt = Some w" and "word_at com (cPt + 1) = Some h"
    and "0 < w" and "0 < h"
  shows "readArg td reg com B prefix GLimage cPt (Some p) =
     (if length B < p + w * h * 4 then Inl RangeError
      else Inr (JImage w h (bytes_at B p (w * h * 4)), Some (w * h * 4), cPt + 2))"
  using assms by (simp add: readArray_def createImageData_def)

lemma readArg_fixed:
  assumes "type_kind reg ty = Some k"
  shows "readArg td reg com B prefix ty cPt (Some p) =
     (if p + kind_bytes k \<le> length B
      then Inr (let x = be_value k (bytes_at B p (kind_bytes k)) in
                if ty = GLboolean then JBool (x \<noteq> 0)
                else if ty = GLref \<or> ty = GLlocation then JStr (prefix @ number_to_string x)
                else JNum x,
                Some (kind_bytes k), cPt)
      else Inl RangeError)"
  using assms by (cases ty) (simp_all add: dv_get_def)


lemma elems_bytes_div [simp]:
  "elems_bytes k bs div BYTES_PER_ELEMENT k * BYTES_PER_ELEMENT k = elems_bytes k bs"
  by (simp add: elems_bytes_def)

lemma layoutArg_arraybuffer:
  "layoutArg te reg GLarraybuffer v = Inr (hdr, n) \<longleftrightarrow>
     (\<exists>k bs. v = JTyped k bs \<and> hdr = [BNum (arr_num k), BNum (elems_bytes k bs)] \<and> n = elems_bytes k bs)"
  by (cases v) (auto simp: elems_bytes_def Let_def)

lemma layoutArg_string:
  "layoutArg te reg GLstring v = Inr (hdr, n) \<longleftrightarrow>
     (\<exists>s. v = JStr s \<and>
        (case te of
           Some enc \<Rightarrow> hdr = [BBytes (enc s)] \<and> n = length (enc s)
         | None \<Rightarrow> hdr = [BNum (length s * 2)] \<and> n = length s * 2))"
  by (cases v) (auto split: option.splits)

lemma layoutArg_image:
  "layoutArg te reg GLimage v = Inr (hdr, n) \<longleftrightarrow>
     (\<exists>w h d. v = JImage w h d \<and> hdr = [BNum w, BNum h] \<and> n = length d)"
  by (cases v) auto

lemma layoutArg_fixed:
  assumes "type_kind reg ty = Some k"
  shows "layoutArg te reg ty v = Inr ([], kind_bytes k)"
  using assms by (cases ty) auto

lemma length_float_encode [simp]: "length (float_encode fk x) = float_bytes fk"
  by (simp add: float_encode_def)

lemma layoutArg_float:
  "layoutArg te reg (GLfloat fk) v = Inr (hdr, n) \<longleftrightarrow> hdr = [] \<and> n = float_bytes fk"
  by auto

lemma writeArg_float:
  "writeArg te reg W (GLfloat fk) v (buf, p, bp, bts)
   = (case to_number v of
        Inl e \<Rightarrow> Inl e
      | Inr x \<Rightarrow>
          if p + float_bytes fk \<le> length buf
          then Inr (write_at buf p (float_encode fk x), p + float_bytes fk, bp, bts)
          else Inl RangeError)"
  by (simp add: writeArg_def dv_setFloat_def split: sum.splits)

lemma readArg_float:
  "readArg td reg com B prefix (GLfloat fk) cPt (Some p)
   = (if p + float_bytes fk \<le> length B
      then Inr (float_decode fk (bytes_at B p (float_bytes fk)), Some (float_bytes fk), cPt)
      else Inl RangeError)"
  by (simp add: dv_getFloat_def)

lemma words_at_0: "words_at com cPt (a # ns) \<Longrightarrow> word_at com cPt = Some a"
  by (auto simp: words_at_def)

lemma words_at_1: "words_at com cPt (a # b # ns) \<Longrightarrow> word_at com (cPt + 1) = Some b"
  by (force simp: words_at_def)

lemma writeArg_step:
  assumes L: "layoutArg te reg ty v = Inr (hdr, n)"
    and V: "valid_arg ty v"
    and Wr: "writeArg te reg W ty v (buf, p, length pre, pre @ hdr @ post) = Inr (buf', p', bp', bts')"
  shows "p' = p + n \<and> bp' = length pre + length hdr \<and> bts' = pre @ map finalize hdr @ post
         \<and> length buf' = length buf \<and> p + n \<le> length buf
         \<and> take p buf' = take p buf \<and> drop (p + n) buf' = drop (p + n) buf"
proof (cases "type_kind reg ty")
  case (Some k)
  have l: "hdr = [] \<and> n = kind_bytes k"
    using L layoutArg_fixed [OF Some] by simp
  show ?thesis
    using Wr l by (auto simp: writeArg_fixed [OF Some] split: sum.splits if_splits)
next
  case None
  then consider "ty = GLarraybuffer" | "ty = GLstring" | "ty = GLimage"
    | fk where "ty = GLfloat fk"
    by (cases ty) auto
  then show ?thesis
  proof cases
    case 1
    then obtain k bs where v: "v = JTyped k bs"
      and h: "hdr = [BNum (arr_num k), BNum (elems_bytes k bs)]" and n: "n = elems_bytes k bs"
      using L unfolding 1 layoutArg_arraybuffer by blast
    have "length (take (elems_bytes k bs) bs) = elems_bytes k bs"
      using elems_bytes_le [of k bs] by simp
    then show ?thesis
      using Wr unfolding 1 v h n
      by (auto simp: writeArg_arraybuffer split: if_splits)
  next
    case 2
    then obtain s where v: "v = JStr s"
      and h: "case te of Some enc \<Rightarrow> hdr = [BBytes (enc s)] \<and> n = length (enc s)
              | None \<Rightarrow> hdr = [BNum (length s * 2)] \<and> n = length s * 2"
      using L unfolding 2 layoutArg_string by blast
    show ?thesis
    proof (cases te)
      case None
      then show ?thesis
        using Wr h unfolding 2 v None
        by (auto simp: writeArg_string_fallback split: if_splits)
    next
      case (Some enc)
      then show ?thesis
        using Wr h unfolding 2 v Some
        by (auto simp: writeArg_string_encoder split: if_splits)
    qed
  next
    case 3
    then obtain w h d where v: "v = JImage w h d"
      and h: "hdr = [BNum w, BNum h]" and n: "n = length d"
      using L unfolding 3 layoutArg_image by blast
    have d: "length d = w * h * 4"
      using V unfolding 3 v by simp
    show ?thesis
      using Wr unfolding 3 v h n d
      by (auto simp: writeArg_image split: if_splits)
  next
    case 4
    have l: "hdr = [] \<and> n = float_bytes fk"
      using L unfolding 4 layoutArg_float .
    show ?thesis
      using Wr l unfolding 4
      by (auto simp: writeArg_float split: sum.splits if_splits)
  qed
qed


lemma decoded_arg_fixed:
  assumes "type_kind reg ty = Some k"
  shows "decoded_arg te td reg W prefix ty v =
     (case fixed_value W ty v of
        Inr n \<Rightarrow>
          (let x = be_value k (be_bytes (kind_bytes k) n) in
           if ty = GLboolean then JBool (x \<noteq> 0)
           else if ty = GLref \<or> ty = GLlocation then JStr (prefix @ number_to_string x)
           else JNum x)
      | Inl e \<Rightarrow> JUndefined)"
  using assms by (cases ty) (auto split: sum.splits)

lemma bytes_at_take: "p + n \<le> m \<Longrightarrow> bytes_at (take m xs) p n = bytes_at xs p n"
  by (simp add: bytes_at_def take_drop min_def add.commute)

lemma bytes_at_eq_if_take_eq:
  assumes "take m B = take m A" and "p + n \<le> m"
  shows "bytes_at B p n = bytes_at A p n"
  by (metis assms bytes_at_take)

lemma length_ge_if_take_eq:
  assumes "take m B = take m A" and "m \<le> length A"
  shows "m \<le> length B"
proof -
  have "length (take m B) = m" using assms by simp
  then show ?thesis by simp
qed

lemma readArg_after_write:
  assumes L: "layoutArg te reg ty v = Inr (hdr, n)"
    and V: "valid_arg ty v"
    and Wr: "writeArg te reg W ty v (buf, p, length pre, pre @ hdr @ post) = Inr (buf', p', bp', bts')"
    and C: "decodable_arg te td ty v"
    and H: "words_at com cPt (map hdr_num hdr)"
    and Z: "bytes_at buf p n = replicate n 0"
    and B1: "bytes_at B p n = bytes_at buf' p n"
    and B2: "p + n \<le> length B"
  shows "readArg td reg com B prefix ty cPt (Some p)
           = Inr (decoded_arg te td reg W prefix ty v, Some n, cPt + length hdr)"
proof (cases "type_kind reg ty")
  case (Some k)
  have l: "hdr = [] \<and> n = kind_bytes k"
    using L layoutArg_fixed [OF Some] by simp
  obtain x where x: "fixed_value W ty v = Inr x" and le: "p + kind_bytes k \<le> length buf"
    and b: "buf' = write_at buf p (be_bytes (kind_bytes k) x)"
    using Wr by (auto simp: writeArg_fixed [OF Some] split: sum.splits if_splits)
  have "bytes_at B p (kind_bytes k) = be_bytes (kind_bytes k) x"
    using B1 l le unfolding b by simp
  then show ?thesis
    using B2 l x by (simp add: readArg_fixed [OF Some] decoded_arg_fixed [OF Some] del: readArg.simps decoded_arg.simps)
next
  case None
  then consider "ty = GLarraybuffer" | "ty = GLstring" | "ty = GLimage"
    | fk where "ty = GLfloat fk"
    by (cases ty) auto
  then show ?thesis
  proof cases
    case 1
    then obtain k bs where v: "v = JTyped k bs"
      and h: "hdr = [BNum (arr_num k), BNum (elems_bytes k bs)]" and n: "n = elems_bytes k bs"
      using L unfolding 1 layoutArg_arraybuffer by blast
    have len: "length (take (elems_bytes k bs) bs) = elems_bytes k bs"
      using elems_bytes_le [of k bs] by simp
    have w: "p mod BYTES_PER_ELEMENT k = 0" "p + elems_bytes k bs \<le> length buf"
      "buf' = write_at buf p (take (elems_bytes k bs) bs)"
      using Wr unfolding 1 v h
      by (auto simp: writeArg_arraybuffer split: if_splits)
    have s: "bytes_at B p (elems_bytes k bs) = take (elems_bytes k bs) bs"
      using B1 len w(2) unfolding n w(3) by simp
    have h0: "word_at com cPt = Some (arr_num k)" and h1: "word_at com (cPt + 1) = Some (elems_bytes k bs)"
      using H words_at_0 words_at_1 unfolding h by force+
    show ?thesis
      using w(1) B2 s unfolding 1 v h n
      by (simp add: readArg_arraybuffer [OF h0 h1] del: readArg.simps)
  next
    case 2
    then obtain s where v: "v = JStr s"
      and h: "case te of Some enc \<Rightarrow> hdr = [BBytes (enc s)] \<and> n = length (enc s)
              | None \<Rightarrow> hdr = [BNum (length s * 2)] \<and> n = length s * 2"
      using L unfolding 2 layoutArg_string by blast
    show ?thesis
    proof (cases te)
      case None
      have hh: "hdr = [BNum (length s * 2)]" and n: "n = length s * 2"
        using h None by simp_all
      have w: "p mod 2 = 0" "p + length s * 2 \<le> length buf" "buf' = write_at buf p (le16_bytes s)"
        using Wr unfolding 2 v None hh
        by (auto simp: writeArg_string_fallback split: if_splits)
      have sl: "bytes_at B p (length s * 2) = le16_bytes s"
        using B1 w(2) unfolding n w(3) by simp
      have h0: "word_at com cPt = Some (length s * 2)"
        using H words_at_0 unfolding hh by force
      show ?thesis
      proof (cases td)
        case (NoTextDecoder lim)
        have "length s \<le> lim"
          using C unfolding 2 v NoTextDecoder by simp
        then show ?thesis
          using w(1) B2 sl unfolding 2 v n hh NoTextDecoder \<open>te = None\<close>
          by (simp add: readArg_string_fallback [OF h0] del: readArg.simps)
      next
        case (TextDecoder dec)
        show ?thesis
          using B2 sl unfolding 2 v n hh TextDecoder \<open>te = None\<close>
          by (simp add: readArg_string_decoder [OF h0] del: readArg.simps)
      qed
    next
      case (Some enc)
      have hh: "hdr = [BBytes (enc s)]" and n: "n = length (enc s)"
        using h Some by simp_all
      have w: "p + length (enc s) \<le> length buf" "buf' = write_at buf p (enc s)"
        using Wr unfolding 2 v Some hh
        by (auto simp: writeArg_string_encoder split: if_splits)
      have sl: "bytes_at B p (length (enc s)) = enc s"
        using B1 w(1) unfolding n w(2) by simp
      have h0: "word_at com cPt = Some (length (enc s))"
        using H words_at_0 unfolding hh by force
      obtain dec where td: "td = TextDecoder dec"
        using C Some unfolding 2 by (cases td) auto
      show ?thesis
        using B2 sl unfolding 2 v n hh td Some
        by (simp add: readArg_string_decoder [OF h0] del: readArg.simps)
    qed
  next
    case 3
    then obtain w h d where v: "v = JImage w h d"
      and hh: "hdr = [BNum w, BNum h]" and n: "n = length d"
      using L unfolding 3 layoutArg_image by blast
    have d: "length d = w * h * 4" and pos: "0 < w" "0 < h"
      using V unfolding 3 v by simp_all
    have b: "buf' = buf"
      using Wr unfolding 3 v hh
      by (auto simp: writeArg_image split: if_splits)
    have h0: "word_at com cPt = Some w" and h1: "word_at com (cPt + 1) = Some h"
      using H words_at_0 words_at_1 unfolding hh by force+
    show ?thesis
      using B1 B2 Z unfolding 3 v hh n d b
      by (simp add: readArg_image [OF h0 h1 pos] del: readArg.simps)
  next
    case 4
    have l: "hdr = [] \<and> n = float_bytes fk"
      using L unfolding 4 layoutArg_float .
    obtain x where x: "to_number v = Inr x" and le: "p + float_bytes fk \<le> length buf"
      and b: "buf' = write_at buf p (float_encode fk x)"
      using Wr unfolding 4 by (auto simp: writeArg_float split: sum.splits if_splits)
    have "bytes_at B p (float_bytes fk) = float_encode fk x"
      using B1 l le unfolding b by simp
    then show ?thesis
      using B2 l x unfolding 4 by (simp add: readArg_float del: readArg.simps)
  qed
qed


lemma layoutArgs_Cons:
  "layoutArgs te reg (ty # tys) vs = Inr (hdrs, sz) \<longleftrightarrow>
     (\<exists>h1 n1 h2 t2. layoutArg te reg ty (arg0 vs) = Inr (h1, n1)
        \<and> layoutArgs te reg tys (tl vs) = Inr (h2, t2) \<and> hdrs = h1 @ h2 \<and> sz = n1 + t2)"
  by (auto split: sum.splits)

lemma writeArgs_Cons:
  "writeArgs te reg W (ty # tys) vs st = Inr st' \<longleftrightarrow>
     (\<exists>st1. writeArg te reg W ty (arg0 vs) st = Inr st1 \<and> writeArgs te reg W tys (tl vs) st1 = Inr st')"
  by (auto split: sum.splits)

lemma words_at_append:
  "words_at com cPt (xs @ ys) \<longleftrightarrow> words_at com cPt xs \<and> words_at com (cPt + length xs) ys"
proof
  assume a: "words_at com cPt (xs @ ys)"
  have "words_at com cPt xs"
    unfolding words_at_def
  proof (intro allI impI)
    fix j assume "j < length xs"
    then show "word_at com (cPt + j) = Some (xs ! j)"
      using a [unfolded words_at_def, rule_format, of j] by (simp add: nth_append)
  qed
  moreover have "words_at com (cPt + length xs) ys"
    unfolding words_at_def
  proof (intro allI impI)
    fix j assume "j < length ys"
    then show "word_at com (cPt + length xs + j) = Some (ys ! j)"
      using a [unfolded words_at_def, rule_format, of "length xs + j"]
      by (simp add: nth_append add.assoc)
  qed
  ultimately show "words_at com cPt xs \<and> words_at com (cPt + length xs) ys" ..
next
  assume a: "words_at com cPt xs \<and> words_at com (cPt + length xs) ys"
  show "words_at com cPt (xs @ ys)"
    unfolding words_at_def
  proof (intro allI impI)
    fix j assume j: "j < length (xs @ ys)"
    show "word_at com (cPt + j) = Some ((xs @ ys) ! j)"
    proof (cases "j < length xs")
      case True
      then show ?thesis
        using a [THEN conjunct1, unfolded words_at_def, rule_format, of j]
        by (simp add: nth_append)
    next
      case False
      then have "j - length xs < length ys" using j by simp
      then have "word_at com (cPt + length xs + (j - length xs)) = Some (ys ! (j - length xs))"
        using a [THEN conjunct2, unfolded words_at_def, rule_format, of "j - length xs"] by simp
      then show ?thesis
        using False by (simp add: nth_append)
    qed
  qed
qed

lemma writeArgs_frame:
  assumes "layoutArgs te reg tys vs = Inr (hdrs, sz)"
    and "valid_args tys vs"
    and "writeArgs te reg W tys vs (buf, p, length pre, pre @ hdrs @ post) = Inr (buf', p', bp', bts')"
    and "p \<le> length buf"
  shows "p' = p + sz \<and> bp' = length pre + length hdrs \<and> bts' = pre @ map finalize hdrs @ post
         \<and> length buf' = length buf \<and> p + sz \<le> length buf
         \<and> take p buf' = take p buf \<and> drop p' buf' = drop p' buf"
  using assms
proof (induction tys arbitrary: vs buf p pre hdrs sz)
  case Nil
  then show ?case by simp
next
  case (Cons ty tys)
  from Cons.prems(1) obtain h1 n1 h2 t2
    where l1: "layoutArg te reg ty (arg0 vs) = Inr (h1, n1)"
      and l2: "layoutArgs te reg tys (tl vs) = Inr (h2, t2)"
      and hd: "hdrs = h1 @ h2" and tot: "sz = n1 + t2"
    unfolding layoutArgs_Cons by blast
  from Cons.prems(2) have v1: "valid_arg ty (arg0 vs)" and v2: "valid_args tys (tl vs)"
    by simp_all
  from Cons.prems(3) obtain buf1 p1 bp1 bts1
    where w1: "writeArg te reg W ty (arg0 vs) (buf, p, length pre, pre @ h1 @ (h2 @ post))
                 = Inr (buf1, p1, bp1, bts1)"
      and w2: "writeArgs te reg W tys (tl vs) (buf1, p1, bp1, bts1) = Inr (buf', p', bp', bts')"
    unfolding writeArgs_Cons hd by (metis append_assoc prod_cases4)
  note s1 = writeArg_step [OF l1 v1 w1]
  have w2': "writeArgs te reg W tys (tl vs)
               (buf1, p + n1, length (pre @ map finalize h1), (pre @ map finalize h1) @ h2 @ post)
               = Inr (buf', p', bp', bts')"
    using w2 s1 by simp
  have ple: "p + n1 \<le> length buf1" using s1 by simp
  note s2 = Cons.IH [OF l2 v2 w2' ple]
  have a: "take p buf' = take p buf"
  proof -
    have "take p buf' = take p (take (p + n1) buf')" by (simp add: min_def)
    also have "\<dots> = take p (take (p + n1) buf1)" using s2 by simp
    also have "\<dots> = take p buf1" by (simp add: min_def)
    finally show ?thesis using s1 by simp
  qed
  have b: "drop p' buf' = drop p' buf"
  proof -
    have pp: "p' = (p' - (p + n1)) + (p + n1)" using s2 by simp
    have e: "drop (p + n1) buf1 = drop (p + n1) buf" using s1 by simp
    have "drop p' buf1 = drop (p' - (p + n1)) (drop (p + n1) buf1)"
      by (metis pp drop_drop)
    also have "\<dots> = drop (p' - (p + n1)) (drop (p + n1) buf)"
      by (simp only: e)
    also have "\<dots> = drop p' buf"
      by (metis pp drop_drop)
    finally have f: "drop p' buf1 = drop p' buf" .
    have d2: "drop p' buf' = drop p' buf1" using s2 by blast
    show ?thesis using d2 f by (rule trans)
  qed
  show ?case
    using s1 s2 a b by (simp add: hd tot)
qed

lemma readArgs_after_write:
  assumes "layoutArgs te reg tys vs = Inr (hdrs, sz)"
    and "valid_args tys vs"
    and "writeArgs te reg W tys vs (buf, p, length pre, pre @ hdrs @ post) = Inr (buf', p', bp', bts')"
    and "decodable_args te td tys vs"
    and "words_at com cPt (map hdr_num hdrs)"
    and "drop p buf = replicate (length buf - p) 0"
    and "take p' B = take p' buf'"
    and "p \<le> length buf"
  shows "readArgs td reg com B prefix tys cPt (Some p)
           = Inr (decoded_args te td reg W prefix tys vs, cPt + length hdrs, Some p')"
  using assms
proof (induction tys arbitrary: vs buf p pre hdrs sz cPt)
  case Nil
  then show ?case by simp
next
  case (Cons ty tys)
  from Cons.prems(1) obtain h1 n1 h2 t2
    where l1: "layoutArg te reg ty (arg0 vs) = Inr (h1, n1)"
      and l2: "layoutArgs te reg tys (tl vs) = Inr (h2, t2)"
      and hd: "hdrs = h1 @ h2" and tot: "sz = n1 + t2"
    unfolding layoutArgs_Cons by blast
  from Cons.prems(2) have v1: "valid_arg ty (arg0 vs)" and v2: "valid_args tys (tl vs)"
    by simp_all
  from Cons.prems(4) have d1: "decodable_arg te td ty (arg0 vs)"
    and d2: "decodable_args te td tys (tl vs)"
    by (simp_all del: decodable_arg.simps)
  from Cons.prems(3) obtain buf1 p1 bp1 bts1
    where w1: "writeArg te reg W ty (arg0 vs) (buf, p, length pre, pre @ h1 @ (h2 @ post))
                 = Inr (buf1, p1, bp1, bts1)"
      and w2: "writeArgs te reg W tys (tl vs) (buf1, p1, bp1, bts1) = Inr (buf', p', bp', bts')"
    unfolding writeArgs_Cons hd by (metis append_assoc prod_cases4)
  note s1 = writeArg_step [OF l1 v1 w1]
  have w2': "writeArgs te reg W tys (tl vs)
               (buf1, p + n1, length (pre @ map finalize h1), (pre @ map finalize h1) @ h2 @ post)
               = Inr (buf', p', bp', bts')"
    using w2 s1 by simp
  have ple: "p + n1 \<le> length buf1" using s1 by simp
  note s2 = writeArgs_frame [OF l2 v2 w2' ple]
  from Cons.prems(5) have c1: "words_at com cPt (map hdr_num h1)"
    and c2: "words_at com (cPt + length h1) (map hdr_num h2)"
    unfolding hd by (simp_all add: words_at_append)
  have p'le: "p' \<le> length buf'" using s1 s2 by simp
  have lenB: "p' \<le> length B"
    using length_ge_if_take_eq [OF Cons.prems(7) p'le] .
  have n1le: "n1 \<le> length buf - p" using s1 by arith
  have z1: "bytes_at buf p n1 = replicate n1 0"
    using Cons.prems(6) n1le by (simp add: bytes_at_def min_def)
  have tk: "take (p + n1) B = take (p + n1) buf1"
  proof -
    have "take (p + n1) B = take (p + n1) (take p' B)" using s2 by (simp add: min_def)
    also have "\<dots> = take (p + n1) (take p' buf')" using Cons.prems(7) by simp
    also have "\<dots> = take (p + n1) buf'" using s2 by (simp add: min_def)
    finally show ?thesis using s2 by simp
  qed
  have b1: "bytes_at B p n1 = bytes_at buf1 p n1"
    using bytes_at_eq_if_take_eq [OF tk] by simp
  have b2: "p + n1 \<le> length B" using lenB s2 by simp
  have r1: "readArg td reg com B prefix ty cPt (Some p)
              = Inr (decoded_arg te td reg W prefix ty (arg0 vs), Some n1, cPt + length h1)"
    using readArg_after_write [OF l1 v1 w1 d1 c1 z1 b1 b2] .
  have z2: "drop (p + n1) buf1 = replicate (length buf1 - (p + n1)) 0"
  proof -
    have "drop (p + n1) buf1 = drop (p + n1) buf" using s1 by simp
    also have "\<dots> = drop n1 (drop p buf)" by (simp add: add.commute)
    also have "\<dots> = replicate (length buf - p - n1) 0" using Cons.prems(6) by simp
    finally show ?thesis using s1 by simp
  qed
  have r2: "readArgs td reg com B prefix tys (cPt + length h1) (Some (p + n1))
              = Inr (decoded_args te td reg W prefix tys (tl vs), cPt + length h1 + length h2, Some p')"
    using Cons.IH [OF l2 v2 w2' d2 c2 z2 Cons.prems(7) ple] .
  show ?case
    using r1 r2 by (simp add: hd del: readArg.simps decoded_arg.simps)
qed


subsection \<open>The decoder's offset, and decoding what \<^verbatim>\<open>addCommand\<close> wrote\<close>

lemma readArg_lockstep:
  assumes L: "layoutArg te reg ty v = Inr (hdr, n)"
    and V: "valid_arg ty v"
    and H: "words_at com cPt (map hdr_num hdr)"
    and R: "readArg td reg com B prefix ty cPt vPt = Inr (d, bc, c)"
  shows "bc = Some n \<and> c = cPt + length hdr"
proof (cases "type_kind reg ty")
  case (Some k)
  have l: "hdr = [] \<and> n = kind_bytes k"
    using L layoutArg_fixed [OF Some] by simp
  show ?thesis
    using R l Some by (cases ty) (auto split: sum.splits)
next
  case None
  then consider "ty = GLarraybuffer" | "ty = GLstring" | "ty = GLimage"
    | fk where "ty = GLfloat fk"
    by (cases ty) auto
  then show ?thesis
  proof cases
    case 1
    then obtain k bs where v: "v = JTyped k bs"
      and h: "hdr = [BNum (arr_num k), BNum (elems_bytes k bs)]" and n: "n = elems_bytes k bs"
      using L unfolding 1 layoutArg_arraybuffer by blast
    have h0: "word_at com cPt = Some (arr_num k)" and h1: "word_at com (cPt + 1) = Some (elems_bytes k bs)"
      using H words_at_0 words_at_1 unfolding h by force+
    show ?thesis
      using R h0 h1 unfolding 1 h n by (auto simp: Let_def split: sum.splits)
  next
    case 2
    then obtain s where v: "v = JStr s"
      and h: "case te of Some enc \<Rightarrow> hdr = [BBytes (enc s)] \<and> n = length (enc s)
              | None \<Rightarrow> hdr = [BNum (length s * 2)] \<and> n = length s * 2"
      using L unfolding 2 layoutArg_string by blast
    have hh: "length hdr = 1" and h0: "word_at com cPt = Some n"
      using h H words_at_0 by (cases te; force)+
    show ?thesis
      using R h0 hh unfolding 2 by (auto simp: Let_def split: sum.splits)
  next
    case 3
    then obtain w h d' where v: "v = JImage w h d'"
      and hh: "hdr = [BNum w, BNum h]" and n: "n = length d'"
      using L unfolding 3 layoutArg_image by blast
    have d: "length d' = w * h * 4"
      using V unfolding 3 v by simp
    have h0: "word_at com cPt = Some w" and h1: "word_at com (cPt + 1) = Some h"
      using H words_at_0 words_at_1 unfolding hh by force+
    show ?thesis
      using R h0 h1 unfolding 3 hh n d by (auto simp: Let_def split: sum.splits)
  next
    case 4
    have l: "hdr = [] \<and> n = float_bytes fk"
      using L unfolding 4 layoutArg_float .
    show ?thesis
      using R l unfolding 4 by (auto split: sum.splits)
  qed
qed

lemma readArgs_lockstep:
  assumes "layoutArgs te reg tys vs = Inr (hdrs, sz)"
    and "valid_args tys vs"
    and "words_at com cPt (map hdr_num hdrs)"
    and "readArgs td reg com B prefix tys cPt (Some p) = Inr (ds, c, v)"
  shows "v = Some (p + sz) \<and> c = cPt + length hdrs"
  using assms
proof (induction tys arbitrary: vs hdrs sz cPt p ds)
  case Nil
  then show ?case by simp
next
  case (Cons ty tys)
  from Cons.prems(1) obtain h1 n1 h2 t2
    where l1: "layoutArg te reg ty (arg0 vs) = Inr (h1, n1)"
      and l2: "layoutArgs te reg tys (tl vs) = Inr (h2, t2)"
      and hd: "hdrs = h1 @ h2" and tot: "sz = n1 + t2"
    unfolding layoutArgs_Cons by blast
  from Cons.prems(2) have v1: "valid_arg ty (arg0 vs)" and v2: "valid_args tys (tl vs)"
    by simp_all
  from Cons.prems(3) have c1: "words_at com cPt (map hdr_num h1)"
    and c2: "words_at com (cPt + length h1) (map hdr_num h2)"
    unfolding hd by (simp_all add: words_at_append)
  from Cons.prems(4) obtain d1 bc c' ds'
    where r1: "readArg td reg com B prefix ty cPt (Some p) = Inr (d1, bc, c')"
      and r2: "readArgs td reg com B prefix tys c' (num_add (Some p) bc) = Inr (ds', c, v)"
    by (auto simp del: readArg.simps split: sum.splits)
  have s1: "bc = Some n1 \<and> c' = cPt + length h1"
    using readArg_lockstep [OF l1 v1 c1 r1] .
  have r2': "readArgs td reg com B prefix tys (cPt + length h1) (Some (p + n1)) = Inr (ds', c, v)"
    using r2 s1 by simp
  show ?case
    using Cons.IH [OF l2 v2 c2 r2'] by (simp add: hd tot)
qed

lemma layoutArgs_take:
  assumes "layoutArgs te reg tys vs = Inr (hdrs, sz)"
  shows "\<exists>m. layoutArgs te reg (take k tys) vs
           = Inr (take m hdrs, sum_list (take k (layout_widths te reg tys vs)))"
  using assms
proof (induction tys arbitrary: vs hdrs sz k)
  case Nil
  then show ?case by simp
next
  case (Cons ty tys)
  from Cons.prems obtain h1 n1 h2 t2
    where l1: "layoutArg te reg ty (arg0 vs) = Inr (h1, n1)"
      and l2: "layoutArgs te reg tys (tl vs) = Inr (h2, t2)"
      and hd: "hdrs = h1 @ h2" and tot: "sz = n1 + t2"
    unfolding layoutArgs_Cons by blast
  show ?case
  proof (cases k)
    case 0
    then show ?thesis by (intro exI [of _ 0]) simp
  next
    case (Suc j)
    from Cons.IH [OF l2, of j] obtain m
      where a: "layoutArgs te reg (take j tys) (tl vs)
                  = Inr (take m h2, sum_list (take j (layout_widths te reg tys (tl vs))))"
      by blast
    show ?thesis
      using a l1 by (intro exI [of _ "length h1 + m"]) (simp add: Suc hd del: layoutArg.simps)
  qed
qed

lemma valid_args_take: "valid_args tys vs \<Longrightarrow> valid_args (take k tys) vs"
proof (induction tys arbitrary: vs k)
  case Nil
  then show ?case by simp
next
  case (Cons ty tys)
  then show ?case by (cases k) simp_all
qed

lemma words_at_take: "words_at com cPt ns \<Longrightarrow> words_at com cPt (take m ns)"
  by (simp add: words_at_def)

lemma readArgs_take_lockstep:
  assumes L: "layoutArgs te reg tys vs = Inr (hdrs, sz)"
    and V: "valid_args tys vs"
    and H: "words_at com cPt (map hdr_num hdrs)"
    and R: "readArgs td reg com B prefix (take k tys) cPt (Some p) = Inr (ds, c, v)"
  shows "v = Some (p + sum_list (take k (layout_widths te reg tys vs)))"
proof -
  obtain m where a: "layoutArgs te reg (take k tys) vs
           = Inr (take m hdrs, sum_list (take k (layout_widths te reg tys vs)))"
    using layoutArgs_take [OF L] by blast
  have w: "words_at com cPt (map hdr_num (take m hdrs))"
    using words_at_take [OF H, of m] by (simp add: take_map)
  show ?thesis
    using readArgs_lockstep [OF a valid_args_take [OF V] w R] by simp
qed


lemma addCommand_Done:
  assumes G: "getCommandTypes reg nm args = Some ct"
    and D: "addCommand te reg nm args (W, wr) = Done (W', wr')"
  shows "\<exists>rm hdrs sz r buf' bts' p' bp' buf''.
       length args = length (argTypes ct) + (if returnType ct \<noteq> None then 1 else 0)
     \<and> (if GLrefCreators reg nm then tagRefs (last_arg args) (W, w_refMap wr)
         else Done (W, w_refMap wr)) = Done (W', rm)
     \<and> layoutArgs te reg (argTypes ct) args = Inr (hdrs, sz)
     \<and> returnSize reg (returnType ct) args = Inr r
     \<and> writeArgs te reg W' (argTypes ct) args (replicate (sz + r) 0, 0, 0, hdrs)
          = Inr (buf', p', bp', bts')
     \<and> writeReturn reg W' (returnType ct) (nth_or_undefined args (length (argTypes ct))) buf' p'
          = Inr buf''
     \<and> wr' = wr\<lparr>w_refMap := rm, w_commands := w_commands wr @ BNum (num ct) # bts',
                  w_valueBuffers := w_valueBuffers wr @ [buf'']\<rparr>"
proof -
  have cnt: "length args = length (argTypes ct) + (if returnType ct \<noteq> None then 1 else 0)"
    using G D by (auto simp: addCommand_def Let_def split: if_splits)
  then have S: "saveCommand te reg ct nm args (W, wr) = Done (W', wr')"
    using G D by (simp add: addCommand_def Let_def)
  define tg where "tg = (if GLrefCreators reg nm then tagRefs (last_arg args) (W, w_refMap wr)
         else Done (W, w_refMap wr))"
  have S1: "(case tg of
        Throws e (W, rm) \<Rightarrow> Throws e (W, wr\<lparr>w_refMap := rm\<rparr>)
      | Done (W, rm) \<Rightarrow>
          (let wr1 = wr\<lparr>w_refMap := rm\<rparr> in
           case getBufferTypes te reg ct args of
             Inl e \<Rightarrow> Throws e (W, wr1)
           | Inr (bufferTypes, bsize) \<Rightarrow>
               (case writeArgValues te reg W args ct bufferTypes bsize of
                  Inl e \<Rightarrow> Throws e (W, wr1)
                | Inr (buffer, bufferTypes') \<Rightarrow>
                    Done (W, (writeCommand ct bufferTypes' wr1)
                               \<lparr>w_valueBuffers := w_valueBuffers wr1 @ [buffer]\<rparr>)))) = Done (W', wr')"
    using S unfolding saveCommand_def fst_conv snd_conv tg_def [symmetric] .
  obtain W1 rm where T0: "tg = Done (W1, rm)"
    using S1 by (cases tg) (auto split: prod.splits)
  obtain hdrs bsize where GB: "getBufferTypes te reg ct args = Inr (hdrs, bsize)"
    using S1 unfolding T0 by (cases "getBufferTypes te reg ct args") (auto simp: Let_def)
  obtain buffer bts' where WA0: "writeArgValues te reg W1 args ct hdrs bsize = Inr (buffer, bts')"
    using S1 unfolding T0 by (cases "writeArgValues te reg W1 args ct hdrs bsize") (auto simp: Let_def GB)
  have W1: "W1 = W'"
    and wr': "wr' = (writeCommand ct bts' (wr\<lparr>w_refMap := rm\<rparr>))
                               \<lparr>w_valueBuffers := w_valueBuffers (wr\<lparr>w_refMap := rm\<rparr>) @ [buffer]\<rparr>"
    using S1 unfolding T0 by (simp_all add: Let_def GB WA0)
  have T: "(if GLrefCreators reg nm then tagRefs (last_arg args) (W, w_refMap wr)
         else Done (W, w_refMap wr)) = Done (W', rm)"
    using T0 W1 unfolding tg_def by simp
  have WA: "writeArgValues te reg W' args ct hdrs bsize = Inr (buffer, bts')"
    using WA0 W1 by simp
  obtain sz r where L: "layoutArgs te reg (argTypes ct) args = Inr (hdrs, sz)"
    and R: "returnSize reg (returnType ct) args = Inr r" and bs: "bsize = sz + r"
    using GB by (auto simp: getBufferTypes_def split: sum.splits)
  have "\<exists>buf' p' bp'. writeArgs te reg W' (argTypes ct) args (replicate (sz + r) 0, 0, 0, hdrs)
          = Inr (buf', p', bp', bts')
     \<and> writeReturn reg W' (returnType ct) (nth_or_undefined args (length (argTypes ct))) buf' p'
          = Inr buffer"
  proof (cases "args = []")
    case True
    then have e: "argTypes ct = []" "returnType ct = None" using cnt by (auto split: if_splits)
    show ?thesis
      using WA True e bs by (simp add: writeArgValues_def writeReturn_def)
  next
    case False
    then show ?thesis
      using WA bs by (auto simp: writeArgValues_def Let_def split: sum.splits)
  qed
  then show ?thesis
    using cnt T L R wr' by (auto simp: writeCommand_def)
qed


lemma dv_set_frame:
  assumes "dv_set k p v buf = Inr b"
  shows "length b = length buf \<and> take p b = take p buf \<and> p + kind_bytes k \<le> length buf"
  using assms by (auto simp: dv_set_def split: sum.splits if_splits)

lemma writeReturnList_frame:
  assumes "writeReturnList reg W rtype xs buf p = Inr b"
  shows "length b = length buf \<and> take p b = take p buf"
  using assms
proof (induction xs arbitrary: buf p)
  case Nil
  then show ?case by simp
next
  case (Cons x xs)
  from Cons.prems obtain v k buf1
    where s: "dv_set k p v buf = Inr buf1"
      and r: "writeReturnList reg W rtype xs buf1 (p + kind_bytes k) = Inr b"
    by (auto split: sum.splits option.splits)
  note f1 = dv_set_frame [OF s]
  note f2 = Cons.IH [OF r]
  have "take p b = take p (take (p + kind_bytes k) b)" by (simp add: min_def)
  also have "\<dots> = take p (take (p + kind_bytes k) buf1)" using f2 by simp
  also have "\<dots> = take p buf1" by (simp add: min_def)
  finally show ?case using f1 f2 by simp
qed

lemma writeReturn_frame:
  assumes "writeReturn reg W rt v buf p = Inr b"
  shows "length b = length buf \<and> take p b = take p buf"
proof (cases rt)
  case None
  then show ?thesis using assms by (simp add: writeReturn_def)
next
  case (Some r)
  show ?thesis
  proof (cases r)
    case (RetSingle rtype)
    then show ?thesis
      using assms Some dv_set_frame
      by (auto simp: writeReturn_def split: sum.splits option.splits)
  next
    case (RetList rtype)
    then show ?thesis
      using assms Some writeReturnList_frame
      by (auto simp: writeReturn_def split: js_value.splits)
  qed
qed

lemma readRefs_total:
  assumes "(length buf - vPt) mod kind_bytes k = 0"
  shows "\<exists>ids. readRefs buf prefix k vPt = Inr ids"
  using assms
proof (induction buf prefix k vPt rule: readRefs.induct)
  case (1 buf prefix k vPt)
  show ?case
  proof (cases "vPt < length buf")
    case False
    then show ?thesis by (subst readRefs.simps) simp
  next
    case True
    have pos: "0 < kind_bytes k" by (cases k) simp_all
    have ge: "kind_bytes k \<le> length buf - vPt"
    proof (rule ccontr)
      assume "\<not> kind_bytes k \<le> length buf - vPt"
      then have "(length buf - vPt) mod kind_bytes k = length buf - vPt" by simp
      with "1.prems" True show False by simp
    qed
    then have le: "vPt + kind_bytes k \<le> length buf" using True by simp
    obtain x where g: "dv_get k vPt buf = Inr x"
      using le by (auto simp: dv_get_def)
    have "(length buf - vPt) mod kind_bytes k = (length buf - vPt - kind_bytes k) mod kind_bytes k"
      using ge by (rule le_mod_geq)
    then have m: "(length buf - (vPt + kind_bytes k)) mod kind_bytes k = 0"
      using "1.prems" by (simp add: diff_diff_left)
    obtain ids where "readRefs buf prefix k (vPt + kind_bytes k) = Inr ids"
      using "1.IH" [OF True g m] by blast
    then show ?thesis
      using True g by (subst readRefs.simps) simp
  qed
qed

lemma readReturn_after_write:
  assumes R: "returnSize reg rt args = Inr r"
    and Wr: "writeReturn reg W rt v buf p = Inr b"
    and len: "length buf = p + r"
  shows "\<exists>ref. readReturn reg b prefix rt (Some p) = Inr ref"
proof (cases rt)
  case None
  then show ?thesis by (simp add: readReturn_def)
next
  case (Some rr)
  note f = writeReturn_frame [OF Wr]
  show ?thesis
  proof (cases rr)
    case (RetSingle rtype)
    then obtain k x where k: "type_kind reg rtype = Some k" and s: "dv_set k p x buf = Inr b"
      using Wr Some by (auto simp: writeReturn_def split: sum.splits option.splits)
    have "p + kind_bytes k \<le> length b"
      using dv_set_frame [OF s] by simp
    then show ?thesis
      using Some RetSingle k by (simp add: readReturn_def dv_get_def)
  next
    case (RetList rtype)
    then obtain k m where k: "type_kind reg rtype = Some k" and r: "r = kind_bytes k * m"
      using R Some
      by (auto simp: returnSize_def type_bytesCount_def split: option.splits js_value.splits)
    have "(length b - p) mod kind_bytes k = 0"
      using f len r by simp
    from readRefs_total [OF this, of prefix]
    obtain ids where "readRefs b prefix k p = Inr ids" ..
    then show ?thesis
      using Some RetList k by (simp add: readReturn_def)
  qed
qed

lemma unat_to_uint32_finalize:
  "hdr_num x < 2 ^ 32 \<Longrightarrow> unat (to_uint32 (finalize x)) = hdr_num x"
  by (cases x) (simp_all add: unat_of_nat)

lemma words_at_written:
  assumes "list_all (\<lambda>x. hdr_num x < 2 ^ 32) hdrs"
  shows "words_at (cpre @ w # map to_uint32 (map finalize hdrs)) (Suc (length cpre)) (map hdr_num hdrs)"
  unfolding words_at_def
proof (intro allI impI)
  fix j assume j: "j < length (map hdr_num hdrs)"
  then have "hdr_num (hdrs ! j) < 2 ^ 32"
    using assms by (simp add: list_all_length)
  then show "word_at (cpre @ w # map to_uint32 (map finalize hdrs)) (Suc (length cpre) + j)
               = Some (map hdr_num hdrs ! j)"
    using j by (simp add: word_at_def nth_append unat_to_uint32_finalize)
qed

lemma decode_after_addCommand:
  assumes G: "getCommandTypes reg nm args = Some ct"
    and D: "addCommand te reg nm args (W, wr) = Done (W', wr')"
    and V: "valid_args (argTypes ct) args"
    and F: "header_fits te reg (argTypes ct) args"
    and C: "decodable_args te td (argTypes ct) args"
    and N: "getCommandTypesByNum reg (num ct) = Some ct"
    and N2: "num ct < 2 ^ 32"
  shows "\<exists>ref. readCommand td reg (length (w_commands wr)) (d_commands (getBuffer wr'))
                  (last (d_values (getBuffer wr'))) prefix
           = Inr (length (d_commands (getBuffer wr')),
                  \<lparr>c_name = name ct, c_types = argTypes ct,
                   c_args = decoded_args te td reg W' prefix (argTypes ct) args, c_ref = ref\<rparr>)"
proof -
  from addCommand_Done [OF G D] obtain rm hdrs sz r buf' bts' p' bp' buf''
    where L: "layoutArgs te reg (argTypes ct) args = Inr (hdrs, sz)"
      and R: "returnSize reg (returnType ct) args = Inr r"
      and WA: "writeArgs te reg W' (argTypes ct) args (replicate (sz + r) 0, 0, 0, hdrs)
                 = Inr (buf', p', bp', bts')"
      and WR: "writeReturn reg W' (returnType ct) (nth_or_undefined args (length (argTypes ct))) buf' p'
                 = Inr buf''"
      and wr': "wr' = wr\<lparr>w_refMap := rm, w_commands := w_commands wr @ BNum (num ct) # bts',
                  w_valueBuffers := w_valueBuffers wr @ [buf'']\<rparr>"
    by blast
  have WA': "writeArgs te reg W' (argTypes ct) args
               (replicate (sz + r) 0, 0, length ([] :: buffer_type list), [] @ hdrs @ [])
               = Inr (buf', p', bp', bts')"
    using WA by simp
  have fr: "p' = 0 + sz \<and> bp' = length ([] :: buffer_type list) + length hdrs
            \<and> bts' = [] @ map finalize hdrs @ []
            \<and> length buf' = length (replicate (sz + r) (0 :: byte)) \<and> 0 + sz \<le> length (replicate (sz + r) (0 :: byte))
            \<and> take 0 buf' = take 0 (replicate (sz + r) 0) \<and> drop p' buf' = drop p' (replicate (sz + r) 0)"
    by (rule writeArgs_frame [OF L V WA']) simp
  then have p': "p' = sz" and bts': "bts' = map finalize hdrs" and lb: "length buf' = sz + r"
    by simp_all
  let ?com = "d_commands (getBuffer wr')"
  let ?cPt = "length (w_commands wr)"
  have com: "?com = map to_uint32 (w_commands wr) @ word_of_nat (num ct) # map to_uint32 (map finalize hdrs)"
    by (simp add: getBuffer_def wr' bts')
  have fits: "list_all (\<lambda>x. hdr_num x < 2 ^ 32) hdrs"
    using F L by (simp add: header_fits_def)
  have H: "words_at ?com (Suc ?cPt) (map hdr_num hdrs)"
    unfolding com using words_at_written [OF fits, of "map to_uint32 (w_commands wr)"] by simp
  have lastv: "last (d_values (getBuffer wr')) = buf''"
    by (simp add: getBuffer_def wr')
  note f = writeReturn_frame [OF WR]
  have tk: "take p' buf'' = take p' buf'" using f by simp
  have RA: "readArgs td reg ?com buf'' prefix (argTypes ct) (Suc ?cPt) (Some 0)
              = Inr (decoded_args te td reg W' prefix (argTypes ct) args, Suc ?cPt + length hdrs, Some p')"
    by (rule readArgs_after_write [OF L V WA' C H _ tk]) simp_all
  obtain ref where RR: "readReturn reg buf'' prefix (returnType ct) (Some p') = Inr ref"
    using readReturn_after_write [OF R WR] lb p' by auto
  have c0: "?cPt < length ?com" by (simp add: com)
  have c1: "getCommandTypesByNum reg (unat (?com ! ?cPt)) = Some ct"
    using N N2 by (simp add: com nth_append unat_of_nat)
  have "readCommand td reg ?cPt ?com buf'' prefix
           = Inr (Suc ?cPt + length hdrs,
                  \<lparr>c_name = name ct, c_types = argTypes ct,
                   c_args = decoded_args te td reg W' prefix (argTypes ct) args, c_ref = ref\<rparr>)"
    using RA RR by (simp add: readCommand_known [OF c0 c1])
  moreover have "Suc ?cPt + length hdrs = length ?com" by (simp add: com)
  ultimately show ?thesis
    unfolding lastv by metis
qed

lemma layoutArgs_sum:
  "layoutArgs te reg tys vs = Inr (hdrs, sz) \<Longrightarrow> sz = sum_list (layout_widths te reg tys vs)"
proof (induction tys arbitrary: vs hdrs sz)
  case Nil
  then show ?case by simp
next
  case (Cons ty tys)
  from Cons.prems obtain h1 n1 h2 t2
    where l1: "layoutArg te reg ty (arg0 vs) = Inr (h1, n1)"
      and l2: "layoutArgs te reg tys (tl vs) = Inr (h2, t2)"
      and tot: "sz = n1 + t2"
    unfolding layoutArgs_Cons by blast
  show ?case
    using Cons.IH [OF l2] l1 tot by (simp del: layoutArg.simps)
qed

lemma readArgs_after_addCommand:
  assumes G: "getCommandTypes reg nm args = Some ct"
    and D: "addCommand te reg nm args (W, wr) = Done (W', wr')"
    and V: "valid_args (argTypes ct) args"
    and F: "header_fits te reg (argTypes ct) args"
  shows "\<exists>hdrs sz. layoutArgs te reg (argTypes ct) args = Inr (hdrs, sz)
           \<and> words_at (d_commands (getBuffer wr')) (Suc (length (w_commands wr))) (map hdr_num hdrs)
           \<and> (decodable_args te td (argTypes ct) args \<longrightarrow>
                readArgs td reg (d_commands (getBuffer wr')) (last (d_values (getBuffer wr'))) prefix
                   (argTypes ct) (Suc (length (w_commands wr))) (Some 0)
                 = Inr (decoded_args te td reg W' prefix (argTypes ct) args,
                        length (d_commands (getBuffer wr')), Some sz))"
proof -
  from addCommand_Done [OF G D] obtain rm hdrs sz r buf' bts' p' bp' buf''
    where L: "layoutArgs te reg (argTypes ct) args = Inr (hdrs, sz)"
      and WA: "writeArgs te reg W' (argTypes ct) args (replicate (sz + r) 0, 0, 0, hdrs)
                 = Inr (buf', p', bp', bts')"
      and WR: "writeReturn reg W' (returnType ct) (nth_or_undefined args (length (argTypes ct))) buf' p'
                 = Inr buf''"
      and wr': "wr' = wr\<lparr>w_refMap := rm, w_commands := w_commands wr @ BNum (num ct) # bts',
                  w_valueBuffers := w_valueBuffers wr @ [buf'']\<rparr>"
    by blast
  have WA': "writeArgs te reg W' (argTypes ct) args
               (replicate (sz + r) 0, 0, length ([] :: buffer_type list), [] @ hdrs @ [])
               = Inr (buf', p', bp', bts')"
    using WA by simp
  have fr: "p' = 0 + sz \<and> bp' = length ([] :: buffer_type list) + length hdrs
            \<and> bts' = [] @ map finalize hdrs @ []
            \<and> length buf' = length (replicate (sz + r) (0 :: byte)) \<and> 0 + sz \<le> length (replicate (sz + r) (0 :: byte))
            \<and> take 0 buf' = take 0 (replicate (sz + r) 0) \<and> drop p' buf' = drop p' (replicate (sz + r) 0)"
    by (rule writeArgs_frame [OF L V WA']) simp
  then have p': "p' = sz" and bts': "bts' = map finalize hdrs"
    by simp_all
  let ?com = "d_commands (getBuffer wr')"
  let ?cPt = "length (w_commands wr)"
  have com: "?com = map to_uint32 (w_commands wr) @ word_of_nat (num ct) # map to_uint32 (map finalize hdrs)"
    by (simp add: getBuffer_def wr' bts')
  have fits: "list_all (\<lambda>x. hdr_num x < 2 ^ 32) hdrs"
    using F L by (simp add: header_fits_def)
  have H: "words_at ?com (Suc ?cPt) (map hdr_num hdrs)"
    unfolding com using words_at_written [OF fits, of "map to_uint32 (w_commands wr)"] by simp
  have lastv: "last (d_values (getBuffer wr')) = buf''"
    by (simp add: getBuffer_def wr')
  have tk: "take p' buf'' = take p' buf'" using writeReturn_frame [OF WR] by simp
  have ln: "Suc ?cPt + length hdrs = length ?com" by (simp add: com)
  have "readArgs td reg ?com buf'' prefix (argTypes ct) (Suc ?cPt) (Some 0)
              = Inr (decoded_args te td reg W' prefix (argTypes ct) args, length ?com, Some sz)"
    if C: "decodable_args te td (argTypes ct) args"
  proof -
    have "readArgs td reg ?com buf'' prefix (argTypes ct) (Suc ?cPt) (Some 0)
              = Inr (decoded_args te td reg W' prefix (argTypes ct) args, Suc ?cPt + length hdrs, Some p')"
      by (rule readArgs_after_write [OF L V WA' C H _ tk]) simp_all
    then show ?thesis unfolding ln p' .
  qed
  then show ?thesis
    using L H unfolding lastv by blast
qed


text \<open>
  C2, as the code has it. Let \<^verbatim>\<open>addCommand\<close> have committed a command, its \<^verbatim>\<open>ImageData\<close>
  arguments as the platform makes them and every header number of it (the byte count of
  a typed array or of a string, the width and the height of an image) below \<open>2 ^ 32\<close>.
  The decoder, run on the words that \<^verbatim>\<open>getBuffer\<close> returns for it, is in lockstep with the
  layout pass: whenever it has read the first \<open>k\<close> arguments, from whatever value
  buffer, its offset \<open>vPt\<close> is the sum of the \<^verbatim>\<open>bytesCount\<close>s that \<^verbatim>\<open>_getBufferTypes\<close> computed
  for those arguments; so at each position it advances by exactly the encoder's width.
  And on the value buffer that the Writer produced it does read the first \<open>k\<close>
  arguments, for every \<open>k\<close>, provided its string reader can return: the Player has
  a \<^verbatim>\<open>TextDecoder\<close>, or neither side has a text coder and no string is longer than the
  engine's argument limit.
\<close>

theorem encoder_decoder_lockstep:
  assumes G: "getCommandTypes reg nm args = Some ct"
    and D: "addCommand te reg nm args (W, wr) = Done (W', wr')"
    and V: "valid_args (argTypes ct) args"
    and F: "header_fits te reg (argTypes ct) args"
  shows "(\<forall>B ds c v.
            readArgs td reg (d_commands (getBuffer wr')) B prefix (take k (argTypes ct))
               (Suc (length (w_commands wr))) (Some 0) = Inr (ds, c, v)
            \<longrightarrow> v = Some (sum_list (take k (layout_widths te reg (argTypes ct) args))))
       \<and> (decodable_args te td (argTypes ct) args \<longrightarrow>
            (\<exists>ds c. readArgs td reg (d_commands (getBuffer wr')) (last (d_values (getBuffer wr')))
                        prefix (take k (argTypes ct)) (Suc (length (w_commands wr))) (Some 0)
                     = Inr (ds, c, Some (sum_list (take k (layout_widths te reg (argTypes ct) args))))))"
proof -
  let ?com = "d_commands (getBuffer wr')"
  let ?cPt = "Suc (length (w_commands wr))"
  let ?tys = "argTypes ct"
  from readArgs_after_addCommand [OF G D V F, of td prefix] obtain hdrs sz
    where L: "layoutArgs te reg ?tys args = Inr (hdrs, sz)"
      and H: "words_at ?com ?cPt (map hdr_num hdrs)"
      and RA: "decodable_args te td (argTypes ct) args \<longrightarrow>
                readArgs td reg ?com (last (d_values (getBuffer wr'))) prefix ?tys ?cPt (Some 0)
                 = Inr (decoded_args te td reg W' prefix ?tys args, length ?com, Some sz)"
    by blast
  have one: "v = Some (sum_list (take k (layout_widths te reg ?tys args)))"
    if "readArgs td reg ?com B prefix (take k ?tys) ?cPt (Some 0) = Inr (ds, c, v)" for B ds c v
    using readArgs_take_lockstep [OF L V H that] by simp
  have two: "\<exists>ds c. readArgs td reg ?com (last (d_values (getBuffer wr'))) prefix (take k ?tys) ?cPt (Some 0)
                     = Inr (ds, c, Some (sum_list (take k (layout_widths te reg ?tys args))))"
    if C: "decodable_args te td (argTypes ct) args"
  proof -
    let ?B = "last (d_values (getBuffer wr'))"
    have "readArgs td reg ?com ?B prefix (take k ?tys @ drop k ?tys) ?cPt (Some 0)
            = Inr (decoded_args te td reg W' prefix ?tys args, length ?com, Some sz)"
      using RA C by simp
    then obtain ds c v
      where p: "readArgs td reg ?com ?B prefix (take k ?tys) ?cPt (Some 0) = Inr (ds, c, v)"
      unfolding readArgs_append by (auto split: sum.splits)
    show ?thesis
      using p one [OF p] by blast
  qed
  show ?thesis
    using one two by blast
qed

lemma demo_bufferData:
  "addCommand None demo_registry ''bufferData''
       [JNum 34962, JTyped Uint8Array [1, 2, 3], JNum 35044] (initial_world, GLBufferWriter False None)
   = Done (initial_world,
       \<lparr>w_debug = False, w_refPrefix = None, w_commands = [BNum 7, BNum 2, BNum 3],
        w_valueBuffers = [[0, 0, 136, 146, 1, 2, 3, 0, 0, 136, 228]], w_refMap = Map.empty\<rparr>)"
  by (simp add: encode_defs demo_defs writer_defs)

theorem encoder_decoder_lockstep_witness:
  "\<exists>ds c. readArgs (NoTextDecoder 65536) demo_registry [7, 2, 3]
             [0, 0, 136, 146, 1, 2, 3, 0, 0, 136, 228] []
             [GLscalar Uint32, GLarraybuffer] 1 (Some 0) = Inr (ds, c, Some 7)"
proof -
  let ?ct = "\<lparr>num = 7, name = ''bufferData'',
              argTypes = [GLscalar Uint32, GLarraybuffer, GLscalar Uint32], returnType = None\<rparr>"
  let ?args = "[JNum 34962, JTyped Uint8Array [1, 2, 3], JNum 35044]"
  have G: "getCommandTypes demo_registry ''bufferData'' ?args = Some ?ct"
    by (simp add: demo_defs)
  have V: "valid_args (argTypes ?ct) ?args" by simp
  have F: "header_fits None demo_registry (argTypes ?ct) ?args"
    by (simp add: header_fits_def)
  have S: "sum_list (take 2 (layout_widths None demo_registry (argTypes ?ct) ?args)) = 7"
    by (simp add: numeral_2_eq_2)
  let ?wr = "\<lparr>w_debug = False, w_refPrefix = None, w_commands = [BNum 7, BNum 2, BNum 3],
        w_valueBuffers = [[0, 0, 136, 146, 1, 2, 3, 0, 0, 136, 228 :: byte]], w_refMap = Map.empty\<rparr>"
  have e1: "d_commands (getBuffer ?wr) = [7, 2, 3]"
    and e2: "last (d_values (getBuffer ?wr)) = [0, 0, 136, 146, 1, 2, 3, 0, 0, 136, 228]"
    and e3: "take 2 (argTypes ?ct) = [GLscalar Uint32, GLarraybuffer]"
    and e4: "Suc (length (w_commands (GLBufferWriter False None))) = 1"
    by (simp_all add: getBuffer_def writer_defs)
  have c: "decodable_args None (NoTextDecoder 65536) (argTypes ?ct) ?args" by simp
  note t = encoder_decoder_lockstep [OF G demo_bufferData V F,
      where td = "NoTextDecoder 65536" and k = 2 and prefix = "[]"]
  from t [THEN conjunct2, THEN mp, OF c]
  show ?thesis
    unfolding e1 e2 e3 e4 S .
qed

text \<open>
  C2 as stated fails where a header number does not fit a command word. For
  \<^verbatim>\<open>bufferData(34962, arr, 35044)\<close> with a \<^verbatim>\<open>Uint8Array\<close> of \<open>2 ^ 32\<close> bytes the layout pass
  computes the widths 4, 4294967296 and 4, and \<^verbatim>\<open>addCommand\<close> commits the command with the
  header entries 2 and 4294967296. \<^verbatim>\<open>new Uint32Array(this.commands)\<close> turns the byte count
  into the word 0, and the decoder advances by 0 for the array: after two arguments its
  offset is 4.
\<close>

theorem header_word_truncated:
  "addCommand None demo_registry ''bufferData''
       [JNum 34962, JTyped Uint8Array (replicate 4294967296 0), JNum 35044] fresh_session
     = Done (initial_world,
         \<lparr>w_debug = False, w_refPrefix = None,
          w_commands = [BNum 7, BNum 2, BNum 4294967296],
          w_valueBuffers = [[0, 0, 136, 146] @ replicate 4294967296 0 @ [0, 0, 136, 228]],
          w_refMap = Map.empty\<rparr>)
   \<and> layout_widths None demo_registry [GLscalar Uint32, GLarraybuffer, GLscalar Uint32]
         [JNum 34962, JTyped Uint8Array (replicate 4294967296 0), JNum 35044]
       = [4, 4294967296, 4]
   \<and> d_commands (getBuffer
         \<lparr>w_debug = False, w_refPrefix = None,
          w_commands = [BNum 7, BNum 2, BNum 4294967296],
          w_valueBuffers = [[0, 0, 136, 146] @ replicate 4294967296 0 @ [0, 0, 136, 228]],
          w_refMap = Map.empty\<rparr>)
       = [7, 2, 0]
   \<and> readArgs (NoTextDecoder 65536) demo_registry [7, 2, 0]
         ([0, 0, 136, 146] @ replicate 4294967296 0 @ [0, 0, 136, 228]) []
         [GLscalar Uint32, GLarraybuffer] 1 (Some 0)
       = Inr ([JNum 34962, JTyped Uint8Array []], 3, Some 4)"
proof -
  let ?zs = "replicate 4294967296 (0 :: byte)"
  have w1: "write_at (replicate 4294967304 0) 0 [0, 0, 136, 146 :: byte]
              = 0 # 0 # 136 # 146 # replicate 4294967300 0"
    by (simp add: write_at_def)
  have w2: "write_at (0 # 0 # 136 # 146 # replicate 4294967300 0) 4 ?zs
              = 0 # 0 # 136 # 146 # replicate 4294967300 0"
    by (simp add: write_at_def replicate_add [symmetric])
  have w3: "write_at (0 # 0 # 136 # 146 # replicate 4294967300 0) 4294967300 [0, 0, 136, 228 :: byte]
              = 0 # 0 # 136 # 146 # ?zs @ [0, 0, 136, 228]"
    by (simp add: write_at_def)
  have n: "(34962 :: byte) = 146" "(35044 :: byte) = 228"
    by simp_all
  have a: "addCommand None demo_registry ''bufferData''
       [JNum 34962, JTyped Uint8Array ?zs, JNum 35044] fresh_session
     = Done (initial_world,
         \<lparr>w_debug = False, w_refPrefix = None,
          w_commands = [BNum 7, BNum 2, BNum 4294967296],
          w_valueBuffers = [[0, 0, 136, 146] @ ?zs @ [0, 0, 136, 228]],
          w_refMap = Map.empty\<rparr>)"
    by (simp add: addCommand_def saveCommand_def getBufferTypes_def returnSize_def
          writeArgValues_def writeArg_def writeReturn_def writeCommand_def writeBuffer_def
          getTypeOfArrayByNum_def bt_num_def dv_set_def Let_def demo_defs writer_defs n w1 w2 w3)
  have b: "layout_widths None demo_registry [GLscalar Uint32, GLarraybuffer, GLscalar Uint32]
         [JNum 34962, JTyped Uint8Array ?zs, JNum 35044]
       = [4, 4294967296, 4]"
    by simp
  have c: "d_commands (getBuffer
         \<lparr>w_debug = False, w_refPrefix = None,
          w_commands = [BNum 7, BNum 2, BNum 4294967296],
          w_valueBuffers = [[0, 0, 136, 146] @ ?zs @ [0, 0, 136, 228]],
          w_refMap = Map.empty\<rparr>)
       = [7, 2, 0]"
    by (simp add: getBuffer_def)
  have d: "readArgs (NoTextDecoder 65536) demo_registry [7, 2, 0]
         ([0, 0, 136, 146] @ ?zs @ [0, 0, 136, 228]) []
         [GLscalar Uint32, GLarraybuffer] 1 (Some 0)
       = Inr ([JNum 34962, JTyped Uint8Array []], 3, Some 4)"
    by (simp add: word_at_def readArray_def getTypeOfArrayByNum_def dv_get_def be_value_def
          bytes_at_def)
  show ?thesis
    using a b c d by simp
qed


subsection \<open>Strings without a text encoder\<close>

lemma decoded_args_nth:
  "i < length tys \<Longrightarrow>
     decoded_args te td reg W prefix tys vs ! i
       = decoded_arg te td reg W prefix (tys ! i) (nth_or_undefined vs i)"
proof (induction tys arbitrary: i vs)
  case Nil
  then show ?case by simp
next
  case (Cons ty tys)
  show ?case
  proof (cases i)
    case 0
    then show ?thesis by (cases vs) (simp_all del: decoded_arg.simps)
  next
    case (Suc j)
    then have "j < length tys" using Cons.prems by simp
    from Cons.IH [OF this, of "tl vs"] show ?thesis
      using Suc by (cases vs) (simp_all del: decoded_arg.simps)
  qed
qed

lemma writeArgs_fallback_string_even:
  assumes "layoutArgs None reg tys vs = Inr (hdrs, sz)"
    and "valid_args tys vs"
    and "writeArgs None reg W tys vs (buf, p, length pre, pre @ hdrs @ post) = Inr (buf', p', bp', bts')"
    and "i < length tys"
    and "tys ! i = GLstring"
    and "nth_or_undefined vs i = JStr s"
  shows "even (p + sum_list (take i (layout_widths None reg tys vs)))"
  using assms
proof (induction tys arbitrary: vs buf p pre hdrs sz i)
  case Nil
  then show ?case by simp
next
  case (Cons ty tys)
  from Cons.prems(1) obtain h1 n1 h2 t2
    where l1: "layoutArg None reg ty (arg0 vs) = Inr (h1, n1)"
      and l2: "layoutArgs None reg tys (tl vs) = Inr (h2, t2)"
      and hd: "hdrs = h1 @ h2" and tot: "sz = n1 + t2"
    unfolding layoutArgs_Cons by blast
  from Cons.prems(2) have v1: "valid_arg ty (arg0 vs)" and v2: "valid_args tys (tl vs)"
    by simp_all
  from Cons.prems(3) obtain buf1 p1 bp1 bts1
    where w1: "writeArg None reg W ty (arg0 vs) (buf, p, length pre, pre @ h1 @ (h2 @ post))
                 = Inr (buf1, p1, bp1, bts1)"
      and w2: "writeArgs None reg W tys (tl vs) (buf1, p1, bp1, bts1) = Inr (buf', p', bp', bts')"
    unfolding writeArgs_Cons hd by (metis append_assoc prod_cases4)
  note s1 = writeArg_step [OF l1 v1 w1]
  have w2': "writeArgs None reg W tys (tl vs)
               (buf1, p + n1, length (pre @ map finalize h1), (pre @ map finalize h1) @ h2 @ post)
               = Inr (buf', p', bp', bts')"
    using w2 s1 by simp
  have w0: "layout_widths None reg (ty # tys) vs = n1 # layout_widths None reg tys (tl vs)"
    using l1 by (simp del: layoutArg.simps)
  show ?case
  proof (cases i)
    case 0
    have ty: "ty = GLstring" using Cons.prems(5) 0 by simp
    have v: "arg0 vs = JStr s" using Cons.prems(6) 0 by (cases vs) simp_all
    have h1: "h1 = [BNum (length s * 2)]"
      using l1 unfolding ty v by auto
    have "p mod 2 = 0"
      using w1 unfolding ty v h1
      by (auto simp: writeArg_string_fallback split: if_splits)
    then show ?thesis unfolding 0 by (simp add: even_iff_mod_2_eq_zero)
  next
    case (Suc j)
    then have j: "j < length tys" and t: "tys ! j = GLstring"
      using Cons.prems(4,5) by simp_all
    have b: "nth_or_undefined (tl vs) j = JStr s"
      using Cons.prems(6) Suc by (cases vs) (auto split: if_splits)
    note ih = Cons.IH [OF l2 v2 w2' j t b]
    show ?thesis
      using ih unfolding Suc w0 by (simp add: add.assoc)
  qed
qed

text \<open>
  C4, as the code has it. A Writer without \<^verbatim>\<open>TextEncoder\<close> lays a string out as two bytes
  for each code unit and pushes that byte count as the single header entry. When the
  command is committed, the string starts at an even offset of the value buffer (the
  bytes are written through a \<^verbatim>\<open>Uint16Array\<close>). A Player that has no \<^verbatim>\<open>TextDecoder\<close> either
  then decodes the command, from the header and the bytes alone, with the original
  string at the argument's position, provided no string argument of the command has more
  code units than the engine accepts as the arguments of one call. A Player that has a
  \<^verbatim>\<open>TextDecoder\<close> decodes the command too, and returns at that position what its decoder
  makes of the same bytes.
\<close>

theorem string_fallback_roundtrip:
  assumes G: "getCommandTypes reg nm args = Some ct"
    and D: "addCommand None reg nm args (W, wr) = Done (W', wr')"
    and V: "valid_args (argTypes ct) args"
    and F: "header_fits None reg (argTypes ct) args"
    and N: "getCommandTypesByNum reg (num ct) = Some ct"
    and N2: "num ct < 2 ^ 32"
    and I: "i < length (argTypes ct)" "argTypes ct ! i = GLstring" "args ! i = JStr s"
  shows "layoutArg None reg GLstring (JStr s) = Inr ([BNum (length s * 2)], length s * 2)
       \<and> even (sum_list (take i (layout_widths None reg (argTypes ct) args)))
       \<and> (decodable_args None (NoTextDecoder lim) (argTypes ct) args \<longrightarrow>
            (\<exists>c. readCommand (NoTextDecoder lim) reg (length (w_commands wr))
                    (d_commands (getBuffer wr')) (last (d_values (getBuffer wr'))) prefix
                  = Inr (length (d_commands (getBuffer wr')), c)
                \<and> c_args c ! i = JStr s))
       \<and> (\<exists>c. readCommand (TextDecoder dec) reg (length (w_commands wr))
                  (d_commands (getBuffer wr')) (last (d_values (getBuffer wr'))) prefix
                = Inr (length (d_commands (getBuffer wr')), c)
              \<and> c_args c ! i = JStr (dec (le16_bytes s)))"
proof -
  have "length args = length (argTypes ct) + (if returnType ct \<noteq> None then 1 else 0)"
    using addCommand_Done [OF G D] by blast
  then have il: "i < length args" using I(1) by simp
  then have nu: "nth_or_undefined args i = JStr s" using I(3) by simp
  have one: "layoutArg None reg GLstring (JStr s) = Inr ([BNum (length s * 2)], length s * 2)"
    by simp
  have two: "even (sum_list (take i (layout_widths None reg (argTypes ct) args)))"
  proof -
    from addCommand_Done [OF G D] obtain hdrs sz r buf' bts' p' bp'
      where L: "layoutArgs None reg (argTypes ct) args = Inr (hdrs, sz)"
        and WA: "writeArgs None reg W' (argTypes ct) args (replicate (sz + r) 0, 0, 0, hdrs)
                   = Inr (buf', p', bp', bts')"
      by blast
    have WA': "writeArgs None reg W' (argTypes ct) args
                 (replicate (sz + r) 0, 0, length ([] :: buffer_type list), [] @ hdrs @ [])
                 = Inr (buf', p', bp', bts')"
      using WA by simp
    from writeArgs_fallback_string_even [OF L V WA' I(1,2) nu]
    show ?thesis by simp
  qed
  have three: "\<exists>c. readCommand (NoTextDecoder lim) reg (length (w_commands wr))
                    (d_commands (getBuffer wr')) (last (d_values (getBuffer wr'))) prefix
                  = Inr (length (d_commands (getBuffer wr')), c)
                \<and> c_args c ! i = JStr s"
    if C: "decodable_args None (NoTextDecoder lim) (argTypes ct) args"
  proof -
    from decode_after_addCommand [OF G D V F C N N2, of prefix] obtain ref
      where R: "readCommand (NoTextDecoder lim) reg (length (w_commands wr))
                    (d_commands (getBuffer wr')) (last (d_values (getBuffer wr'))) prefix
             = Inr (length (d_commands (getBuffer wr')),
                    \<lparr>c_name = name ct, c_types = argTypes ct,
                     c_args = decoded_args None (NoTextDecoder lim) reg W' prefix (argTypes ct) args,
                     c_ref = ref\<rparr>)"
      by blast
    have "decoded_args None (NoTextDecoder lim) reg W' prefix (argTypes ct) args ! i = JStr s"
      using I(1,2) nu by (simp add: decoded_args_nth del: nth_or_undefined.simps)
    then show ?thesis
      using R by simp
  qed
  have four: "\<exists>c. readCommand (TextDecoder dec) reg (length (w_commands wr))
                  (d_commands (getBuffer wr')) (last (d_values (getBuffer wr'))) prefix
                = Inr (length (d_commands (getBuffer wr')), c)
              \<and> c_args c ! i = JStr (dec (le16_bytes s))"
  proof -
    have C: "decodable_args None (TextDecoder dec) (argTypes ct) args"
      by simp
    from decode_after_addCommand [OF G D V F C N N2, of prefix] obtain ref
      where R: "readCommand (TextDecoder dec) reg (length (w_commands wr))
                    (d_commands (getBuffer wr')) (last (d_values (getBuffer wr'))) prefix
             = Inr (length (d_commands (getBuffer wr')),
                    \<lparr>c_name = name ct, c_types = argTypes ct,
                     c_args = decoded_args None (TextDecoder dec) reg W' prefix (argTypes ct) args,
                     c_ref = ref\<rparr>)"
      by blast
    have "decoded_args None (TextDecoder dec) reg W' prefix (argTypes ct) args ! i
            = JStr (dec (le16_bytes s))"
      using I(1,2) nu by (simp add: decoded_args_nth del: nth_or_undefined.simps)
    then show ?thesis
      using R by simp
  qed
  show ?thesis
    using one two three four by blast
qed

lemma demo_shaderSource:
  "addCommand None demo_registry ''shaderSource'' [JObj 3, JStr [104, 105]]
       (initial_world, GLBufferWriter False None)
   = Done (initial_world,
       \<lparr>w_debug = False, w_refPrefix = None, w_commands = [BNum 5, BNum 4],
        w_valueBuffers = [[0, 0, 0, 0, 104, 0, 105, 0]], w_refMap = Map.empty\<rparr>)"
  by (simp add: encode_defs demo_defs writer_defs le16_bytes_def)

theorem string_fallback_roundtrip_witness:
  "\<exists>c. readCommand (NoTextDecoder 65536) demo_registry 0 [5, 4] [0, 0, 0, 0, 104, 0, 105, 0] []
         = Inr (2, c)
       \<and> c_args c ! 1 = JStr [104, 105]"
proof -
  let ?ct = "\<lparr>num = 5, name = ''shaderSource'', argTypes = [GLref, GLstring], returnType = None\<rparr>"
  let ?args = "[JObj 3, JStr [104, 105]]"
  let ?wr = "\<lparr>w_debug = False, w_refPrefix = None, w_commands = [BNum 5, BNum 4],
        w_valueBuffers = [[0, 0, 0, 0, 104, 0, 105, 0 :: byte]], w_refMap = Map.empty\<rparr>"
  have G: "getCommandTypes demo_registry ''shaderSource'' ?args = Some ?ct"
    by (simp add: demo_defs)
  have V: "valid_args (argTypes ?ct) ?args" by simp
  have F: "header_fits None demo_registry (argTypes ?ct) ?args"
    by (simp add: header_fits_def)
  have N: "getCommandTypesByNum demo_registry (num ?ct) = Some ?ct"
    by (simp add: demo_defs)
  have N2: "num ?ct < 2 ^ 32" by simp
  have I: "1 < length (argTypes ?ct)" "argTypes ?ct ! 1 = GLstring" "?args ! 1 = JStr [104, 105]"
    by simp_all
  have C: "decodable_args None (NoTextDecoder 65536) (argTypes ?ct) ?args"
    by simp
  have e: "length (w_commands (GLBufferWriter False None)) = 0"
    "d_commands (getBuffer ?wr) = [5, 4]"
    "last (d_values (getBuffer ?wr)) = [0, 0, 0, 0, 104, 0, 105, 0]"
    "length [5, 4 :: 32 word] = 2"
    by (simp_all add: getBuffer_def writer_defs)
  from string_fallback_roundtrip [OF G demo_shaderSource V F N N2 I,
      where lim = 65536 and prefix = "[]",
      THEN conjunct2, THEN conjunct2, THEN conjunct1, THEN mp, OF C]
  show ?thesis
    unfolding e .
qed

text \<open>
  C4 as stated fails: the Player chooses its scheme by its own \<^verbatim>\<open>TextDecoder\<close>, not by
  the scheme that produced the bytes. A Writer without \<^verbatim>\<open>TextEncoder\<close> encodes \<^verbatim>\<open>"hi"\<close>
  as the four bytes 104, 0, 105, 0; a Player with the UTF-8 decoder returns a string of
  four code units for them.
\<close>

theorem string_decoder_mismatch:
  "getBuffer (snd (outcome_state
       (addCommand None demo_registry ''shaderSource'' [JObj 3, JStr [104, 105]] fresh_session)))
     = \<lparr>d_refPrefix = [], d_commands = [5, 4], d_values = [[0, 0, 0, 0, 104, 0, 105, 0]]\<rparr>
   \<and> readCommand (TextDecoder utf8_decode) demo_registry 0 [5, 4] [0, 0, 0, 0, 104, 0, 105, 0] []
     = Inr (2, \<lparr>c_name = ''shaderSource'', c_types = [GLref, GLstring],
                c_args = [JStr [48], JStr [104, 0, 105, 0]], c_ref = Ref0\<rparr>)"
proof -
  have a: "utf8_decode [104, 0, 105, 0] = [104, 0, 105, 0]"
    by (simp add: utf8_decode_def utf8_step_def)
  have b: "getCommandTypesByNum demo_registry (unat ([5, 4 :: 32 word] ! 0))
             = Some \<lparr>num = 5, name = ''shaderSource'', argTypes = [GLref, GLstring], returnType = None\<rparr>"
    by (simp add: demo_defs)
  have k: "refKind demo_registry = Uint32"
    by (simp add: demo_registry_def)
  have l: "(0 :: nat) < length [5, 4 :: 32 word]" by simp
  show ?thesis
    unfolding fresh_session_def demo_shaderSource readCommand_known [OF l b]
    by (simp add: getBuffer_def word_at_def readReturn_def readString_def
          dv_get_def be_value_def bytes_at_def number_to_string_def a k)
qed



lemma arg0_drop: "arg0 (drop i vs) = nth_or_undefined vs i"
proof (induction vs arbitrary: i)
  case Nil
  then show ?case by simp
next
  case (Cons v vs)
  then show ?case by (cases i) simp_all
qed











subsection \<open>Pixel data\<close>

lemma demo_texImage2D:
  "addCommand None demo_registry ''texImage2D''
       [JNum 3553, JNum 0, JNum 6408, JNum 6408, JNum 5121, JImage 1 1 [255, 0, 0, 255]]
       (initial_world, GLBufferWriter False None)
   = Done (initial_world,
       \<lparr>w_debug = False, w_refPrefix = None, w_commands = [BNum 4, BNum 1, BNum 1],
        w_valueBuffers = [[0, 0, 13, 225, 0, 0, 0, 0, 0, 0, 25, 8, 0, 0, 25, 8, 0, 0, 20, 1,
                           0, 0, 0, 0]],
        w_refMap = Map.empty\<rparr>)"
proof -
  have r: "replicate 4 (0 :: byte) = [0, 0, 0, 0]"
    by (simp add: numeral_eq_Suc)
  show ?thesis
    by (simp add: encode_defs demo_defs writer_defs r)
qed

text \<open>
  C1, at an \<^verbatim>\<open>ImageData\<close> argument. \<^verbatim>\<open>addCommand('texImage2D', 3553, 0, 6408, 6408, 5121, img)\<close>,
  where \<^verbatim>\<open>img\<close> is a 1 x 1 image whose pixel is 255, 0, 0, 255, is committed with four zero
  bytes in the place of the pixel: \<^verbatim>\<open>_getBufferTypes\<close> reserves \<^verbatim>\<open>img.data.length\<close> bytes, and
  \<^verbatim>\<open>_writeBuffer\<close> is handed the \<^verbatim>\<open>ImageData\<close> itself, of which \<^verbatim>\<open>arr.set\<close> copies nothing.
  \<^verbatim>\<open>addBuffer\<close> decodes the command name, the five scalars and the dimensions as they were
  passed, and an image whose pixel is 0, 0, 0, 0.
\<close>

theorem image_data_not_written:
  "getBuffer (snd (outcome_state
       (addCommand None demo_registry ''texImage2D''
          [JNum 3553, JNum 0, JNum 6408, JNum 6408, JNum 5121, JImage 1 1 [255, 0, 0, 255]]
          fresh_session)))
     = \<lparr>d_refPrefix = [], d_commands = [4, 1, 1],
        d_values = [[0, 0, 13, 225, 0, 0, 0, 0, 0, 0, 25, 8, 0, 0, 25, 8, 0, 0, 20, 1,
                     0, 0, 0, 0]]\<rparr>
   \<and> addBuffer (NoTextDecoder 65536) demo_registry
       \<lparr>d_refPrefix = [], d_commands = [4, 1, 1],
        d_values = [[0, 0, 13, 225, 0, 0, 0, 0, 0, 0, 25, 8, 0, 0, 25, 8, 0, 0, 20, 1,
                     0, 0, 0, 0]]\<rparr>
       GLBufferPlayer
     = Done \<lparr>p_commands =
         [\<lparr>c_name = ''texImage2D'',
           c_types = [GLscalar Uint32, GLscalar Int32, GLscalar Int32, GLscalar Uint32,
                      GLscalar Uint32, GLimage],
           c_args = [JNum 3553, JNum 0, JNum 6408, JNum 6408, JNum 5121, JImage 1 1 [0, 0, 0, 0]],
           c_ref = Ref0\<rparr>],
         p_refMap = Map.empty\<rparr>"
proof -
  have b: "getCommandTypesByNum demo_registry (unat ([4, 1, 1 :: 32 word] ! 0))
             = Some \<lparr>num = 4, name = ''texImage2D'',
                 argTypes = [GLscalar Uint32, GLscalar Int32, GLscalar Int32, GLscalar Uint32,
                      GLscalar Uint32, GLimage], returnType = None\<rparr>"
    by (simp add: demo_defs)
  have l: "(0 :: nat) < length [4, 1, 1 :: 32 word]" by simp
  show ?thesis
    unfolding fresh_session_def demo_texImage2D addBuffer_def parse_def
    by (simp add: readCommand_known [OF l b] getBuffer_def word_at_def readReturn_def readArray_def
          createImageData_def getTypeOfArrayByNum_def
          dv_get_def be_value_def bytes_at_def GLBufferPlayer_def)
qed

subsection \<open>A float argument\<close>

text \<open>
  \<^verbatim>\<open>addCommand('uniform1f', loc, 0.5)\<close> with an object that has no id: the location is
  written as 0 and the number as the binary32 bytes of 0.5, and the Player reads 0.5 back.
\<close>

lemma demo_uniform1f:
  "addCommand None demo_registry ''uniform1f'' [JObj 5, JDouble 0x3FE0000000000000] fresh_session
     = Done (initial_world,
         \<lparr>w_debug = False, w_refPrefix = None, w_commands = [BNum 8],
          w_valueBuffers = [[0, 0, 0, 0, 63, 0, 0, 0]], w_refMap = Map.empty\<rparr>)
   \<and> readCommand (NoTextDecoder 65536) demo_registry 0 [8] [0, 0, 0, 0, 63, 0, 0, 0] []
     = Inr (1, \<lparr>c_name = ''uniform1f'', c_types = [GLlocation, GLfloat Float32],
                c_args = [JStr [48], JDouble 0x3FE0000000000000], c_ref = Ref0\<rparr>)"
proof -
  have e: "float_encode Float32 (ieee_decode 52 11 4602678819172646912) = [63, 0, 0, 0]"
    by (simp add: float_defs)
  have d: "float_decode Float32 [63, 0, 0, 0] = JDouble 0x3FE0000000000000"
    by (simp add: float_defs)
  have a: "addCommand None demo_registry ''uniform1f'' [JObj 5, JDouble 0x3FE0000000000000] fresh_session
     = Done (initial_world,
         \<lparr>w_debug = False, w_refPrefix = None, w_commands = [BNum 8],
          w_valueBuffers = [[0, 0, 0, 0, 63, 0, 0, 0]], w_refMap = Map.empty\<rparr>)"
    by (simp add: encode_defs demo_defs writer_defs dv_setFloat_def e)
  have b: "getCommandTypesByNum demo_registry (unat ([8 :: 32 word] ! 0))
             = Some \<lparr>num = 8, name = ''uniform1f'', argTypes = [GLlocation, GLfloat Float32],
                 returnType = None\<rparr>"
    by (simp add: demo_defs)
  have k: "locationKind demo_registry = Uint32"
    by (simp add: demo_registry_def)
  have l: "(0 :: nat) < length [8 :: 32 word]" by simp
  have c: "readCommand (NoTextDecoder 65536) demo_registry 0 [8] [0, 0, 0, 0, 63, 0, 0, 0] []
     = Inr (1, \<lparr>c_name = ''uniform1f'', c_types = [GLlocation, GLfloat Float32],
                c_args = [JStr [48], JDouble 0x3FE0000000000000], c_ref = Ref0\<rparr>)"
    unfolding readCommand_known [OF l b]
    by (simp add: readReturn_def dv_get_def dv_getFloat_def be_value_def bytes_at_def
          number_to_string_def k d)
  show ?thesis
    using a c by simp
qed

end
